theory Spec2Isabelle
  imports Complex_Main "HOL-Library.Sublist"
begin

section \<open>Contour Scanner and Trimmer: data model\<close>

text \<open>
  The embedding follows \<^verbatim>\<open>contour_scanner_and_trimmer.py\<close>. Python floats are
  idealised as \<^typ>\<open>real\<close>: the source compares coordinates with \<^verbatim>\<open>==\<close> and
  \<^verbatim>\<open>!=\<close>, which is equality here. A path is a list of commands, each a letter
  with its list of arguments: the letters are what the tests on \<^verbatim>\<open>str(path)\<close> read,
  and \<^verbatim>\<open>Path.to_arrays()\<close> gives the same path with absolute commands only.
\<close>

type_synonym point = "real \<times> real"
type_synonym segment = "point \<times> point"
type_synonym cmd = "char \<times> real list"
type_synonym path = "cmd list"

text \<open>The exceptions of the source that the model keeps apart.\<close>

datatype exn = AssertionError | IndexError | AttributeError | ZeroDivisionError | KeyError

text \<open>
  \<^verbatim>\<open>self.msg(...)\<close>: a fixed text, or a debug line given by its format string and
  the values formatted into it.
\<close>

datatype arg = S string | N nat | B bool | R real | Rs "real list" | P path

datatype message = Msg string | Debug string "arg list"

text \<open>
  A style is either the style string of an element of the document, or one of the
  dictionaries \<^verbatim>\<open>{'stroke': colour, 'fill': 'none', 'stroke-width': width}\<close> that the
  source builds from the options.
\<close>

datatype style = ElementStyle string | StrokeStyle string real

text \<open>The module constants \<^verbatim>\<open>idPrefix\<close> and \<^verbatim>\<open>intersectedVerb\<close>.\<close>

definition idPrefix :: string where
  "idPrefix = ''subsplit''"

definition intersectedVerb :: string where
  "intersectedVerb = ''-intersected-''"

text \<open>
  A trim line is a path element created by \<^verbatim>\<open>build_trim_line_group\<close>: its id, its
  path, whether the attribute \<^verbatim>\<open>intersected\<close> was set to \<^verbatim>\<open>'True'\<close>, and its style.
  A trim group is the group element that holds the trim lines of one original path;
  \<open>tg_attached\<close> is False once \<^verbatim>\<open>trimGroup.delete()\<close> has removed it from the
  document (the Python list \<^verbatim>\<open>allTrimGroups\<close> still refers to it).
\<close>

record trim_line =
  tl_id :: string
  tl_path :: path
  tl_intersected :: bool
  tl_style :: style

record trim_group =
  tg_id :: string
  tg_children :: "trim_line list"
  tg_attached :: bool
  tg_originalPathIsBezier :: bool
  tg_originalPathId :: string

text \<open>
  The options of \<^verbatim>\<open>add_arguments\<close>, with the types the argument parser gives them
  (\<^verbatim>\<open>inkex.Boolean\<close>, \<^verbatim>\<open>float\<close>, \<^verbatim>\<open>int\<close>, a string, a colour kept as its
  string). The parser checks the type of each value and nothing else.
\<close>

record options =
  show_debug :: bool
  break_apart :: bool
  handle_groups :: bool
  trimming_path_types :: string
  flattenbezier :: bool
  flatness :: real
  decimals :: int
  snap_tolerance :: real
  remove_relative :: bool
  remove_absolute :: bool
  remove_mixed :: bool
  remove_polylines :: bool
  remove_beziers :: bool
  remove_opened :: bool
  remove_closed :: bool
  remove_self_intersecting :: bool
  highlight_relative :: bool
  highlight_absolute :: bool
  highlight_mixed :: bool
  highlight_polylines :: bool
  highlight_beziers :: bool
  highlight_opened :: bool
  highlight_closed :: bool
  highlight_self_intersecting :: bool
  draw_subsplit :: bool
  visualize_self_intersections :: bool
  visualize_global_intersections :: bool
  draw_trimmed :: bool
  combine_nonintersects :: bool
  remove_duplicates :: bool
  reverse_removal_order :: bool
  keep_original_after_trim :: bool
  strokewidth :: real
  dotsize_intersections :: int
  removefillsetstroke :: bool
  bezier_trimming :: bool
  apply_style_to_subsplits :: bool
  apply_style_to_trimmed :: bool
  color_subsplit :: string
  color_relative :: string
  color_absolute :: string
  color_mixed :: string
  color_polyline :: string
  color_bezier :: string
  color_opened :: string
  color_closed :: string
  color_self_intersecting_paths :: string
  color_self_intersections :: string
  color_global_intersections :: string
  color_trimmed :: string
  color_combined :: string
  color_nonintersected :: string

section \<open>remove\_duplicates\<close>

text \<open>
  \<^verbatim>\<open>
  def remove_duplicates(self, allTrimGroups):
      totalTrimPaths = []
      if self.options.reverse_removal_order is True:
          allTrimGroups = allTrimGroups[::-1]
      for trimGroup in allTrimGroups:
          for element in trimGroup:
              if element.path not in totalTrimPaths:
                  totalTrimPaths.append(element.path)
              else:
                  if self.options.show_debug is True:
                      self.msg("Deleting {}".format(element.get('id')))
                  element.delete()
          if len(trimGroup) == 0:
              if self.options.show_debug is True:
                  self.msg("Deleting {}".format(trimGroup.get('id')))
              trimGroup.delete()
  \<close>
  The inner loop deletes the element it is visiting; the iterator of the element tree
  has already stored the next sibling, so every child of the group is visited once.
  \<open>dedup_elements\<close> returns the paths seen so far, the children that stay and the
  ids of the deleted elements, in the order of deletion; each id is a debug line
  \<^verbatim>\<open>Deleting {}\<close> when \<^verbatim>\<open>show_debug\<close> is set.
\<close>

fun dedup_elements :: "path list \<Rightarrow> trim_line list \<Rightarrow> path list \<times> trim_line list \<times> string list" where
  "dedup_elements totalTrimPaths [] = (totalTrimPaths, [], [])"
| "dedup_elements totalTrimPaths (element # rest) =
     (if tl_path element \<notin> set totalTrimPaths
      then (case dedup_elements (totalTrimPaths @ [tl_path element]) rest of
              (seen, kept, deleted) \<Rightarrow> (seen, element # kept, deleted))
      else (case dedup_elements totalTrimPaths rest of
              (seen, kept, deleted) \<Rightarrow> (seen, kept, tl_id element # deleted)))"

fun dedup_groups :: "path list \<Rightarrow> trim_group list \<Rightarrow> trim_group list \<times> string list" where
  "dedup_groups totalTrimPaths [] = ([], [])"
| "dedup_groups totalTrimPaths (trimGroup # rest) =
     (case dedup_elements totalTrimPaths (tg_children trimGroup) of
        (seen, kept, deleted) \<Rightarrow>
          (case dedup_groups seen rest of
             (groups, deleted') \<Rightarrow>
               (if kept = []
                then (trimGroup\<lparr>tg_children := kept, tg_attached := False\<rparr> # groups,
                      deleted @ [tg_id trimGroup] @ deleted')
                else (trimGroup\<lparr>tg_children := kept\<rparr> # groups, deleted @ deleted'))))"

text \<open>
  The groups are mutated in place, so the caller's list keeps its order whichever
  order the pass ran in: the result lists the groups in the caller's order.
  (The function is named \<open>remove_duplicates_pass\<close> because the option
  \<^verbatim>\<open>remove_duplicates\<close> has the name of the method.)
\<close>

definition deleting_msgs :: "options \<Rightarrow> string list \<Rightarrow> message list" where
  "deleting_msgs so ids = (if show_debug so then map (\<lambda>i. Debug ''Deleting {}'' [S i]) ids else [])"

definition remove_duplicates_pass :: "options \<Rightarrow> trim_group list \<Rightarrow> trim_group list \<times> message list" where
  "remove_duplicates_pass so allTrimGroups =
     (if reverse_removal_order so
      then (case dedup_groups [] (rev allTrimGroups) of
              (groups, deleted) \<Rightarrow> (rev groups, deleting_msgs so deleted))
      else (case dedup_groups [] allTrimGroups of
              (groups, deleted) \<Rightarrow> (groups, deleting_msgs so deleted)))"

text \<open>The paths of all trim lines of a list of groups, in the order of the list.\<close>

definition trim_paths :: "trim_group list \<Rightarrow> path list" where
  "trim_paths groups = concat (map (\<lambda>g. map tl_path (tg_children g)) groups)"

text \<open>Test data: a trim line from one point to another, and a group of one line.\<close>

definition seg_line :: "string \<Rightarrow> point \<Rightarrow> point \<Rightarrow> trim_line" where
  "seg_line i p q = \<lparr>tl_id = i, tl_path = [(CHR ''M'', [fst p, snd p]), (CHR ''L'', [fst q, snd q])],
     tl_intersected = False, tl_style = ElementStyle []\<rparr>"

definition one_group :: "string \<Rightarrow> trim_line \<Rightarrow> trim_group" where
  "one_group i l = \<lparr>tg_id = i, tg_children = [l], tg_attached = True,
     tg_originalPathIsBezier = False, tg_originalPathId = i\<rparr>"

text \<open>
  The first occurrence of every element of a list, in the order of the list (used to
  state which lines a pass keeps).
\<close>

fun keep_first :: "'a list \<Rightarrow> 'a list" where
  "keep_first [] = []"
| "keep_first (x # xs) = x # filter (\<lambda>y. y \<noteq> x) (keep_first xs)"

section \<open>Strings and ids\<close>

text \<open>\<^verbatim>\<open>str(n)\<close> for a natural number: its decimal digits.\<close>

definition digit_char :: "nat \<Rightarrow> char" where
  "digit_char d = char_of (48 + d)"

function string_of_nat :: "nat \<Rightarrow> string" where
  "string_of_nat n = (if n < 10 then [digit_char n] else string_of_nat (n div 10) @ [digit_char (n mod 10)])"
  by pat_completeness auto
termination
  by (relation "measure id") auto

declare string_of_nat.simps [simp del]

text \<open>
  \<open>split_first sep s\<close> cuts \<open>s\<close> at the first occurrence of the separator:
  the text before it and the text after it, or None when \<open>s\<close> does not contain it.
  With it, \<^verbatim>\<open>s.split(sep)[0]\<close> and \<^verbatim>\<open>s.split(sep)[1]\<close> are written out; the second
  raises IndexError when the separator does not occur.
\<close>

fun split_first :: "string \<Rightarrow> string \<Rightarrow> (string \<times> string) option" where
  "split_first sep [] = None"
| "split_first sep (c # cs) =
     (if prefix sep (c # cs) then Some ([], drop (length sep) (c # cs))
      else (case split_first sep cs of
              None \<Rightarrow> None
            | Some (before, after) \<Rightarrow> Some (c # before, after)))"

definition split_0 :: "string \<Rightarrow> string \<Rightarrow> string" where
  "split_0 sep s = (case split_first sep s of None \<Rightarrow> s | Some (before, after) \<Rightarrow> before)"

definition split_1 :: "string \<Rightarrow> string \<Rightarrow> exn + string" where
  "split_1 sep s =
     (case split_first sep s of
        None \<Rightarrow> Inl IndexError
      | Some (before, after) \<Rightarrow> Inr (split_0 sep after))"

text \<open>\<^verbatim>\<open>intersectedVerb in pId\<close>: the verb occurs in the id.\<close>

definition has_intersectedVerb :: "string \<Rightarrow> bool" where
  "has_intersectedVerb pId = sublist intersectedVerb pId"

section \<open>The document and the libraries\<close>

text \<open>
  A path element of the document, as \<^verbatim>\<open>effect\<close> reads it: its id, the commands
  of \<^verbatim>\<open>pathElement.path.transform(pathElement.composed_transform())\<close> as they are
  written (relative commands with their lower-case letters), its style, and whether
  its parent is the root of the document.
\<close>

record path_element =
  pe_id :: string
  pe_path :: path
  pe_style :: style
  pe_in_root :: bool

text \<open>
  A sub split line: one straight piece of a flattened sub path, with the attributes
  the source stores on it. \<open>sl_p1\<close> and \<open>sl_p2\<close> are the two points of its path
  \<^verbatim>\<open>[['M', [x1, y1]], ['L', [x2, y2]]]\<close>.
\<close>

record sub_split_line =
  sl_id :: string
  sl_p1 :: point
  sl_p2 :: point
  sl_style :: style
  sl_originalPathId :: string
  sl_originalPathIsRelative :: bool
  sl_originalPathIsAbsolute :: bool
  sl_originalPathIsMixed :: bool
  sl_originalPathIsBezier :: bool
  sl_originalPathIsClosed :: bool
  sl_originalPathStyle :: style

text \<open>
  The group \<^verbatim>\<open>subsplit-<id>\<close> that \<^verbatim>\<open>draw_subsplit\<close> adds for one path, and the
  group \<^verbatim>\<open>selfIntersectionPoints-<id>\<close> with one circle per point.
\<close>

record subsplit_group =
  sg_id :: string
  sg_lines :: "sub_split_line list"
  sg_attached :: bool

record document =
  doc_paths :: "path_element list"
  doc_subsplit_groups :: "subsplit_group list"
  doc_self_intersection_groups :: "(string \<times> point list) list"
  doc_global_intersection_points :: "point list option"
  doc_trim_groups :: "trim_group list"
  doc_msgs :: "message list"
  doc_uid :: nat

text \<open>
  The coordinates of a line string of the geometry library: it has at least two, and
  the source reads the first two.
\<close>

type_synonym linestring = "point \<times> point \<times> point list"

text \<open>
  What the source takes from its libraries and from the rest of the repository, as
  parameters of the model:
  \<^item> \<open>env_isect_segments\<close>: \<^verbatim>\<open>poly_point_isect.isect_segments(segments, validate)\<close>,
    the sweep line (a file of the repository that is not among the sources read here);
    it returns the intersection points or raises;
  \<^item> \<open>env_round\<close>: Python's \<^verbatim>\<open>round(x, decimals)\<close> on floats;
  \<^item> \<open>env_to_arrays\<close>: \<^verbatim>\<open>path.to_arrays()\<close>, the path with absolute commands only
    (upper-case letters);
  \<^item> \<open>env_to_segments\<close>: \<^verbatim>\<open>list(CubicSuperPath(subPath).to_segments())\<close>, in array form;
  \<^item> \<open>env_cspsubdiv\<close>: the list \<^verbatim>\<open>flattenedpath\<close> built after
    \<^verbatim>\<open>bezier.cspsubdiv(CubicSuperPath(subPath), flatness)\<close>;
  \<^item> \<open>env_parent_inverse\<close>, \<open>env_self_inverse\<close>: the transforms
    \<^verbatim>\<open>-pathElement.getparent().composed_transform()\<close> and
    \<^verbatim>\<open>-trimGroupParent.composed_transform()\<close> of the element with the given id, on points;
  \<^item> \<open>env_snap_split\<close>: \<^verbatim>\<open>split(snap(ls, points, snap_tolerance), points)\<close> of the
    geometry library, as the list of the pieces;
  \<^item> \<open>env_random\<close>: the random part that \<^verbatim>\<open>get_unique_id(prefix)\<close> appends to the
    prefix, for the n-th id it makes;
  \<^item> \<open>env_csplength\<close>: the length \<^verbatim>\<open>csplength(CubicSuperPath(d))\<close> of a path;
  \<^item> \<open>env_csp_of_element\<close>: \<^verbatim>\<open>CubicSuperPath(self.svg.getElementById(id))\<close>, given
    the element found (None when the call returns, the exception when it raises);
  \<^item> \<open>env_adjust_style\<close>: \<^verbatim>\<open>adjust_style\<close>, which rewrites a style string; of the
    options it reads the stroke width.
\<close>

record env =
  env_isect_segments :: "segment list \<Rightarrow> bool \<Rightarrow> exn + point list"
  env_round :: "real \<Rightarrow> int \<Rightarrow> real"
  env_to_arrays :: "path \<Rightarrow> path"
  env_to_segments :: "path \<Rightarrow> path"
  env_cspsubdiv :: "path \<Rightarrow> real \<Rightarrow> path"
  env_parent_inverse :: "string \<Rightarrow> point \<Rightarrow> point"
  env_self_inverse :: "string \<Rightarrow> point \<Rightarrow> point"
  env_snap_split :: "segment \<Rightarrow> point list \<Rightarrow> real \<Rightarrow> linestring list"
  env_random :: "nat \<Rightarrow> string"
  env_csplength :: "path \<Rightarrow> real"
  env_csp_of_element :: "path_element option \<Rightarrow> exn option"
  env_adjust_style :: "real \<Rightarrow> style \<Rightarrow> style"

definition get_unique_id :: "env \<Rightarrow> nat \<Rightarrow> string \<Rightarrow> string" where
  "get_unique_id e n pre = pre @ env_random e n"

text \<open>\<^verbatim>\<open>self.svg.getElementById(id)\<close>, among the path elements of the document.\<close>

definition getElementById :: "document \<Rightarrow> string \<Rightarrow> path_element option" where
  "getElementById doc i = find (\<lambda>pe. pe_id pe = i) (doc_paths doc)"

text \<open>\<^verbatim>\<open>pathElement.delete()\<close>: the element leaves the document; a second call does nothing.\<close>

definition delete_path :: "string \<Rightarrow> document \<Rightarrow> document" where
  "delete_path i doc = doc\<lparr>doc_paths := filter (\<lambda>pe. pe_id pe \<noteq> i) (doc_paths doc)\<rparr>"

definition msg :: "message \<Rightarrow> document \<Rightarrow> document" where
  "msg m doc = doc\<lparr>doc_msgs := doc_msgs doc @ [m]\<rparr>"

definition msgs :: "message list \<Rightarrow> document \<Rightarrow> document" where
  "msgs ms doc = doc\<lparr>doc_msgs := doc_msgs doc @ ms\<rparr>"

definition debug :: "options \<Rightarrow> message \<Rightarrow> document \<Rightarrow> document" where
  "debug so m doc = (if show_debug so then msg m doc else doc)"

section \<open>build\_trim\_line\_group\<close>

text \<open>
  The loop over the pieces of one sub split line:
  \<^verbatim>\<open>
  splitAt = []
  prevLine = None
  for j in range(len(trimLines)):
      trimLineId = "{}-{}".format(trimGroupId, subSplitIndex)
      splitAt.append(trimGroupId)
      if splitAt.count(trimGroupId) > 1:
          trimLineId = trimLineId + self.svg.get_unique_id(intersectedVerb)
          prevLine.attrib['id'] = trimGroupId + "-" + str(subSplitIndex) + self.svg.get_unique_id(intersectedVerb)
          prevLine.attrib['intersected'] = 'True'
      prevLine = trimLine = inkex.PathElement(id=trimLineId)
      x, y = trimLines[j].coords.xy
      trimLine.path = [['M', [x[0],y[0]]], ['L', [x[1],y[1]]]]
      if trimGroupParentTransform is not None:
          trimLine.path = trimLine.path.transform(-trimGroupParentTransform)
      if self.options.apply_style_to_trimmed is False:
          trimLine.style = trimLineStyle
      else:
          trimLine.style = subSplitLineArray[subSplitIndex].attrib['originalPathStyle']
      trimGroup.add(trimLine)
  \<close>
  The state of the loop is the list of the lines made so far (\<^verbatim>\<open>prevLine\<close> is the
  last of them, \<^verbatim>\<open>splitAt\<close> has one entry more than the list before the test) and
  the number of unique ids made.
\<close>

definition update_last :: "('a \<Rightarrow> 'a) \<Rightarrow> 'a list \<Rightarrow> 'a list" where
  "update_last f xs = (case xs of [] \<Rightarrow> [] | _ \<Rightarrow> butlast xs @ [f (last xs)])"

definition new_trim_line :: "env \<Rightarrow> options \<Rightarrow> sub_split_line \<Rightarrow> string \<Rightarrow> string \<Rightarrow> linestring \<Rightarrow> trim_line" where
  "new_trim_line e so line trimGroupParentId trimLineId piece =
     (case piece of (c0, c1, others) \<Rightarrow>
        (let p0 = env_self_inverse e trimGroupParentId c0;
             p1 = env_self_inverse e trimGroupParentId c1
         in \<lparr>tl_id = trimLineId,
             tl_path = [(CHR ''M'', [fst p0, snd p0]), (CHR ''L'', [fst p1, snd p1])],
             tl_intersected = False,
             tl_style = (if \<not> apply_style_to_trimmed so
                         then StrokeStyle (color_trimmed so) (strokewidth so)
                         else sl_originalPathStyle line)\<rparr>))"

definition trim_line_step ::
  "env \<Rightarrow> options \<Rightarrow> sub_split_line \<Rightarrow> string \<Rightarrow> string \<Rightarrow> nat \<Rightarrow>
   trim_line list \<times> nat \<Rightarrow> linestring \<Rightarrow> trim_line list \<times> nat" where
  "trim_line_step e so line trimGroupParentId trimGroupId subSplitIndex st piece =
     (case st of (made, uid) \<Rightarrow>
        (let base = trimGroupId @ ''-'' @ string_of_nat subSplitIndex
         in if Suc (length made) > 1
            then (update_last (\<lambda>prevLine. prevLine\<lparr>tl_id := base @ get_unique_id e (Suc uid) intersectedVerb,
                                                   tl_intersected := True\<rparr>) made
                  @ [new_trim_line e so line trimGroupParentId
                       (base @ get_unique_id e uid intersectedVerb) piece],
                  uid + 2)
            else (made @ [new_trim_line e so line trimGroupParentId base piece], uid)))"

definition trim_lines ::
  "env \<Rightarrow> options \<Rightarrow> sub_split_line \<Rightarrow> string \<Rightarrow> string \<Rightarrow> nat \<Rightarrow> nat \<Rightarrow>
   linestring list \<Rightarrow> trim_line list \<times> nat" where
  "trim_lines e so line trimGroupParentId trimGroupId subSplitIndex uid trimLines =
     foldl (trim_line_step e so line trimGroupParentId trimGroupId subSplitIndex) ([], uid) trimLines"

text \<open>
  \<^verbatim>\<open>find_group(trimGroupId)\<close> searches the groups of the document; a trim group id
  starts with \<^verbatim>\<open>shapely-\<close>, so only a trim group can have it.
\<close>

definition find_group :: "document \<Rightarrow> string \<Rightarrow> trim_group option" where
  "find_group doc groupId = find (\<lambda>g. tg_id g = groupId \<and> tg_attached g) (doc_trim_groups doc)"

fun update_group :: "string \<Rightarrow> (trim_group \<Rightarrow> trim_group) \<Rightarrow> trim_group list \<Rightarrow> trim_group list" where
  "update_group groupId f [] = []"
| "update_group groupId f (g # gs) =
     (if tg_id g = groupId \<and> tg_attached g then f g # gs else g # update_group groupId f gs)"

text \<open>
  The whole method. It returns None (the call is skipped) or the id of the trim group,
  and raises IndexError or AttributeError where the source does: a sub split line id
  without \<^verbatim>\<open>subsplit-\<close>, or no element with the parent id in the document.
\<close>

definition build_trim_line_group ::
  "env \<Rightarrow> options \<Rightarrow> document \<Rightarrow> sub_split_line list \<Rightarrow> nat \<Rightarrow> point list \<Rightarrow>
   exn + (document \<times> string option)" where
  "build_trim_line_group e so doc subSplitLineArray subSplitIndex globalIntersectionPoints =
     (if subSplitIndex \<ge> length subSplitLineArray then Inl IndexError
      else
        let line = subSplitLineArray ! subSplitIndex;
            isClosed = sl_originalPathIsClosed line
        in if trimming_path_types so = ''open_paths'' \<and> isClosed then Inr (doc, None)
           else if trimming_path_types so = ''closed_paths'' \<and> \<not> isClosed then Inr (doc, None)
           else
             let trimGroupId = ''shapely-'' @ split_0 ''_'' (sl_id line)
             in case split_1 (idPrefix @ ''-'') (sl_id line) of
                  Inl err \<Rightarrow> Inl err
                | Inr rest \<Rightarrow>
                    (let trimGroupParentId = split_0 ''_'' rest
                     in case getElementById doc trimGroupParentId of
                          None \<Rightarrow> Inl AttributeError
                        | Some trimGroupParent \<Rightarrow>
                            (let groups = (case find_group doc trimGroupId of
                                             None \<Rightarrow> doc_trim_groups doc @
                                               [\<lparr>tg_id = trimGroupId, tg_children = [], tg_attached = True,
                                                 tg_originalPathIsBezier = False, tg_originalPathId = []\<rparr>]
                                           | Some g \<Rightarrow> doc_trim_groups doc);
                                 trimLines = env_snap_split e (sl_p1 line, sl_p2 line)
                                               globalIntersectionPoints (snap_tolerance so);
                                 made = trim_lines e so line trimGroupParentId trimGroupId subSplitIndex
                                          (doc_uid doc) trimLines
                             in Inr (doc\<lparr>doc_trim_groups :=
                                          update_group trimGroupId
                                            (\<lambda>g. g\<lparr>tg_children := tg_children g @ fst made,
                                                    tg_originalPathIsBezier := sl_originalPathIsBezier line,
                                                    tg_originalPathId := sl_originalPathId line\<rparr>) groups,
                                        doc_uid := snd made\<rparr>,
                                     Some trimGroupId))))"

section \<open>combine\_nonintersects\<close>

text \<open>
  \<^verbatim>\<open>
  newPathData = []
  newPathData.append(segData[0])
  for z in range(1, len(segData)): #skip first because we add it statically
      if segData[z][1] != segData[z-1][1]:
         newPathData.append(segData[z])
  \<close>
  \<open>newPathData_loop prev rest\<close> runs the loop from a command \<open>rest\<close> starts with,
  \<open>prev\<close> being the command before it in \<^verbatim>\<open>segData\<close>.
\<close>

fun newPathData_loop :: "cmd \<Rightarrow> path \<Rightarrow> path" where
  "newPathData_loop prev [] = []"
| "newPathData_loop prev (c # rest) =
     (if snd c \<noteq> snd prev then c # newPathData_loop c rest else newPathData_loop c rest)"

definition newPathData :: "path \<Rightarrow> path" where
  "newPathData segData = (case segData of [] \<Rightarrow> [] | c # rest \<Rightarrow> c # newPathData_loop c rest)"

text \<open>
  The loop over the lines of one trim group:
  \<^verbatim>\<open>
  for pElement in trimGroup:
      pId = pElement.get('id')
      if intersectedVerb not in pId:
          if combinedPath is None:
              combinedPath = pElement
              combinedPathData = pElement.path
          else:
              combinedPathData += pElement.path
              pElement.delete()
      else:
          totalIntersectionsAtPath += 1
  \<close>
  The state is \<^verbatim>\<open>combinedPath\<close> (the place of that line among the lines that stay),
  \<^verbatim>\<open>combinedPathData\<close>, \<^verbatim>\<open>totalIntersectionsAtPath\<close> and the lines that stay.
\<close>

definition combine_step ::
  "nat option \<times> path \<times> nat \<times> trim_line list \<Rightarrow> trim_line \<Rightarrow> nat option \<times> path \<times> nat \<times> trim_line list" where
  "combine_step st pElement =
     (case st of (combinedPath, combinedPathData, totalIntersectionsAtPath, kept) \<Rightarrow>
        if \<not> has_intersectedVerb (tl_id pElement)
        then (case combinedPath of
                None \<Rightarrow> (Some (length kept), tl_path pElement, totalIntersectionsAtPath, kept @ [pElement])
              | Some i \<Rightarrow> (combinedPath, combinedPathData @ tl_path pElement, totalIntersectionsAtPath, kept))
        else (combinedPath, combinedPathData, totalIntersectionsAtPath + 1, kept @ [pElement]))"

definition combine_group :: "options \<Rightarrow> trim_group \<Rightarrow> trim_group \<times> message list" where
  "combine_group so trimGroup =
     (case foldl combine_step (None, [], 0, []) (tg_children trimGroup) of
        (combinedPath, combinedPathData, totalIntersectionsAtPath, kept) \<Rightarrow>
          (let first = (if show_debug so
                        then [Debug ''trim group {} has {} paths''
                                [S (tg_id trimGroup), N (length (tg_children trimGroup))]]
                        else [])
           in if length combinedPathData > 0
              then (case combinedPath of
                      None \<Rightarrow> (trimGroup\<lparr>tg_children := kept\<rparr>, first)
                    | Some i \<Rightarrow>
                        (trimGroup\<lparr>tg_children :=
                           kept[i := (kept ! i)\<lparr>tl_path := newPathData combinedPathData,
                                  tl_style := (if \<not> apply_style_to_trimmed so
                                               then (if totalIntersectionsAtPath = 0
                                                     then StrokeStyle (color_nonintersected so) (strokewidth so)
                                                     else StrokeStyle (color_combined so) (strokewidth so))
                                               else tl_style (kept ! i))\<rparr>]\<rparr>,
                         first @ (if show_debug so
                                  then [Debug ''trim group {} has {} combinable segments:''
                                          [S (tg_id trimGroup), N (length (newPathData combinedPathData))],
                                        Debug ''{}'' [P (newPathData combinedPathData)]]
                                  else [])))
              else (trimGroup\<lparr>tg_children := kept\<rparr>,
                    first @ (if show_debug so
                             then [Debug ''trim group {} has no combinable segments (contains only intersected trim lines)''
                                     [S (tg_id trimGroup)]]
                             else []))))"

definition combine_nonintersects_pass :: "options \<Rightarrow> trim_group list \<Rightarrow> trim_group list \<times> message list" where
  "combine_nonintersects_pass so allTrimGroups =
     (map (\<lambda>g. fst (combine_group so g)) allTrimGroups,
      concat (map (\<lambda>g. snd (combine_group so g)) allTrimGroups))"

section \<open>Scanning one path\<close>

text \<open>
  \<^verbatim>\<open>
  relCmds = ['m', 'l', 'h', 'v', 'c', 's', 'q', 't', 'a', 'z']
  if any(relCmd in str(path) for relCmd in relCmds): isRelative = True
  if any(relCmd.upper() in str(path) for relCmd in relCmds): isAbsolute = True
  if isRelative is True and isAbsolute is True:
      isMixed = True; isRelative = False; isAbsolute = False
  ...
  if 'c' in str(path) or 'C' in str(path): isBezier = True
  \<close>
  The letters of \<^verbatim>\<open>str(path)\<close> are the letters of its commands.
\<close>

record path_flags =
  isRelative :: bool
  isAbsolute :: bool
  isMixed :: bool
  isBezier :: bool
  isClosed :: bool

definition relCmds :: string where
  "relCmds = ''mlhvcsqtaz''"

definition relCmds_upper :: string where
  "relCmds_upper = ''MLHVCSQTAZ''"

definition in_str :: "char \<Rightarrow> path \<Rightarrow> bool" where
  "in_str c p = (c \<in> set (map fst p))"

text \<open>
  \<^verbatim>\<open>args[-2], args[-1]\<close>: the last two entries of a list, IndexError when it has
  fewer than two.
\<close>

definition last_two :: "real list \<Rightarrow> exn + real \<times> real" where
  "last_two args =
     (if length args < 2 then Inl IndexError
      else Inr (args ! (length args - 2), args ! (length args - 1)))"

text \<open>
  \<^verbatim>\<open>
  isClosed = False
  raw = path.to_arrays()
  if raw[-1][0] == 'Z' or \
      (raw[-1][0] == 'L' and raw[0][1] == raw[-1][1]) or \
      (raw[-1][0] == 'C' and raw[0][1] == [raw[-1][1][-2], raw[-1][1][-1]]) \
      :  #if first is last point the path is also closed. The "Z" command is not required
      isClosed = True
  \<close>
\<close>

definition is_closed :: "path \<Rightarrow> exn + bool" where
  "is_closed raw =
     (if raw = [] then Inl IndexError
      else if fst (last raw) = CHR ''Z'' then Inr True
      else if fst (last raw) = CHR ''L'' \<and> snd (hd raw) = snd (last raw) then Inr True
      else if fst (last raw) = CHR ''C''
           then (case last_two (snd (last raw)) of
                   Inl err \<Rightarrow> Inl err
                 | Inr (x, y) \<Rightarrow> Inr (snd (hd raw) = [x, y]))
      else Inr False)"

text \<open>
  \<^verbatim>\<open>
  subPaths, prev = [], 0
  for i in range(len(raw)): # Breaks compound paths into simple paths
      if raw[i][0] == 'M' and i != 0:
          subPaths.append(raw[prev:i])
          prev = i
  subPaths.append(raw[prev:])
  \<close>
\<close>

fun sub_paths_from :: "path \<Rightarrow> path \<Rightarrow> path list" where
  "sub_paths_from cur [] = [cur]"
| "sub_paths_from cur (c # rest) =
     (if fst c = CHR ''M'' then cur # sub_paths_from [c] rest else sub_paths_from (cur @ [c]) rest)"

definition sub_paths :: "path \<Rightarrow> path list" where
  "sub_paths raw = (case raw of [] \<Rightarrow> [[]] | c # rest \<Rightarrow> sub_paths_from [c] rest)"

text \<open>
  The segments of one sub path: flattened first when the path has a curve and
  \<^verbatim>\<open>flattenbezier\<close> is set. The value of \<^verbatim>\<open>flatness\<close> goes to the library as it is.
  \<^verbatim>\<open>
  if so.flattenbezier is True and isBezier is True:
      bezier.cspsubdiv(subPathData, so.flatness) #modifies the path
      ...
      segs = list(CubicSuperPath(flattenedpath).to_segments())
  else:
      segs = list(subPathData.to_segments())
  \<close>
\<close>

definition sub_path_segs :: "env \<Rightarrow> options \<Rightarrow> bool \<Rightarrow> path \<Rightarrow> path" where
  "sub_path_segs e so bezier subPath =
     (if flattenbezier so \<and> bezier
      then env_to_segments e (env_cspsubdiv e subPath (flatness so))
      else env_to_segments e subPath)"

text \<open>
  \<^verbatim>\<open>
  def line_from_segments(self, segs, i, decimals):
      pseudoPath = Path(segs[i:i+2]).to_arrays()
      x1 = round(pseudoPath[0][1][-2], decimals)
      y1 = round(pseudoPath[0][1][-1], decimals)
      if pseudoPath[1][0] == 'Z': #some crappy code when the path is closed
          pseudoPathEnd = Path(segs[0:2]).to_arrays()
          x2 = round(pseudoPathEnd[0][1][-2], decimals)
          y2 = round(pseudoPathEnd[0][1][-1], decimals)
      else:
          x2 = round(pseudoPath[1][1][-2], decimals)
          y2 = round(pseudoPath[1][1][-1], decimals)
      return x1, y1, x2, y2
  \<close>
\<close>

definition rounded_point :: "env \<Rightarrow> int \<Rightarrow> cmd \<Rightarrow> exn + point" where
  "rounded_point e dec c =
     (case last_two (snd c) of
        Inl err \<Rightarrow> Inl err
      | Inr (x, y) \<Rightarrow> Inr (env_round e x dec, env_round e y dec))"

definition line_from_segments :: "env \<Rightarrow> path \<Rightarrow> nat \<Rightarrow> int \<Rightarrow> exn + segment" where
  "line_from_segments e segs i dec =
     (if length segs \<le> i then Inl IndexError
      else case rounded_point e dec (segs ! i) of
             Inl err \<Rightarrow> Inl err
           | Inr p1 \<Rightarrow>
               (if length segs \<le> i + 1 then Inl IndexError
                else if fst (segs ! (i + 1)) = CHR ''Z''
                     then (case rounded_point e dec (segs ! 0) of
                             Inl err \<Rightarrow> Inl err
                           | Inr p2 \<Rightarrow> Inr (p1, p2))
                     else (case rounded_point e dec (segs ! (i + 1)) of
                             Inl err \<Rightarrow> Inl err
                           | Inr p2 \<Rightarrow> Inr (p1, p2))))"

text \<open>
  The style of a sub split line: \<^verbatim>\<open>basicSubSplitLineStyle\<close>, then the highlighting
  of lines 620 to 645, each later assignment replacing an earlier one.
\<close>

definition sub_split_style :: "options \<Rightarrow> path_flags \<Rightarrow> style" where
  "sub_split_style so fl =
     (let w = strokewidth so;
          s0 = StrokeStyle (color_subsplit so) w;
          s1 = (if isRelative fl \<and> highlight_relative so then StrokeStyle (color_relative so) w else s0);
          s2 = (if isAbsolute fl \<and> highlight_absolute so then StrokeStyle (color_absolute so) w else s1);
          s3 = (if isMixed fl \<and> highlight_mixed so then StrokeStyle (color_mixed so) w else s2);
          s4 = (if isBezier fl
                then (if highlight_beziers so then StrokeStyle (color_bezier so) w else s3)
                else (if highlight_polylines so then StrokeStyle (color_polyline so) w else s3));
          s5 = (if isClosed fl
                then (if highlight_closed so then StrokeStyle (color_closed so) w else s4)
                else (if highlight_opened so then StrokeStyle (color_opened so) w else s4))
      in if apply_style_to_subsplits so then s5 else s0)"

definition make_line ::
  "env \<Rightarrow> options \<Rightarrow> path_element \<Rightarrow> bool \<Rightarrow> path_flags \<Rightarrow> nat \<Rightarrow> segment \<Rightarrow> sub_split_line" where
  "make_line e so pathElement attached fl i seg =
     (let untransform = (if attached \<and> \<not> pe_in_root pathElement
                         then env_parent_inverse e (pe_id pathElement) else (\<lambda>p. p))
      in \<lparr>sl_id = idPrefix @ ''-'' @ pe_id pathElement @ ''_'' @ string_of_nat i,
          sl_p1 = untransform (fst seg),
          sl_p2 = untransform (snd seg),
          sl_style = sub_split_style so fl,
          sl_originalPathId = pe_id pathElement,
          sl_originalPathIsRelative = isRelative fl,
          sl_originalPathIsAbsolute = isAbsolute fl,
          sl_originalPathIsMixed = isMixed fl,
          sl_originalPathIsBezier = isBezier fl,
          sl_originalPathIsClosed = isClosed fl,
          sl_originalPathStyle = pe_style pathElement\<rparr>)"

text \<open>
  The loop \<^verbatim>\<open>for i in range(len(segs) - 1)\<close>: the lines it appends to
  \<^verbatim>\<open>subSplitLineArray\<close> and the segments it appends to \<^verbatim>\<open>subSplitLines\<close>.
\<close>

fun lines_loop ::
  "env \<Rightarrow> options \<Rightarrow> path_element \<Rightarrow> bool \<Rightarrow> path_flags \<Rightarrow> path \<Rightarrow> nat list \<Rightarrow>
   exn + (sub_split_line \<times> segment) list" where
  "lines_loop e so pathElement attached fl segs [] = Inr []"
| "lines_loop e so pathElement attached fl segs (i # rest) =
     (case line_from_segments e segs i (decimals so) of
        Inl err \<Rightarrow> Inl err
      | Inr seg \<Rightarrow>
          (case lines_loop e so pathElement attached fl segs rest of
             Inl err \<Rightarrow> Inl err
           | Inr more_lines \<Rightarrow> Inr ((make_line e so pathElement attached fl i seg, seg) # more_lines)))"

text \<open>
  \<^verbatim>\<open>subSplitLineArray[:len(subSplitLineArray) - len(segs) - 1]\<close>: a slice up to an
  index that may be negative, which Python counts from the end.
\<close>

definition py_slice_to :: "int \<Rightarrow> 'a list \<Rightarrow> 'a list" where
  "py_slice_to k xs = (if 0 \<le> k then take (nat k) xs else take (nat (int (length xs) + k)) xs)"

text \<open>
  The state while one path is scanned: the document, \<^verbatim>\<open>subSplitLineArray\<close>, the group
  of drawn sub split lines (when \<^verbatim>\<open>draw_subsplit\<close> is set) and \<^verbatim>\<open>isSelfIntersecting\<close>.
  The new style that a self intersection gives to the drawn lines is kept in the group;
  nothing reads the style of a line of the array afterwards.
\<close>

record scan_state =
  ss_doc :: document
  ss_array :: "sub_split_line list"
  ss_group :: "subsplit_group option"
  ss_isSelfIntersecting :: bool

text \<open>
  \<^verbatim>\<open>visualize_self_intersections\<close> adds a group to the parent of the path, so it raises
  AttributeError when the path has left the document; every circle takes a unique id.
\<close>

definition visualize_self :: "path_element \<Rightarrow> point list \<Rightarrow> document \<Rightarrow> exn + document" where
  "visualize_self pathElement pts doc =
     (if getElementById doc (pe_id pathElement) = None then Inl AttributeError
      else Inr (doc\<lparr>doc_self_intersection_groups :=
                       doc_self_intersection_groups doc @ [(''selfIntersectionPoints-'' @ pe_id pathElement, pts)],
                     doc_uid := doc_uid doc + length pts\<rparr>))"

text \<open>
  One turn of \<^verbatim>\<open>for subPath in subPaths\<close> (lines 578 to 672). The sweep line is called
  with \<^verbatim>\<open>validate=True\<close>; an exception it raises is not caught here.
\<close>

definition scan_sub_path ::
  "env \<Rightarrow> options \<Rightarrow> path_element \<Rightarrow> path_flags \<Rightarrow> scan_state \<Rightarrow> path \<Rightarrow> exn + scan_state" where
  "scan_sub_path e so pathElement fl st subPath =
     (let segs = sub_path_segs e so (isBezier fl) subPath;
          attached = (getElementById (ss_doc st) (pe_id pathElement) \<noteq> None)
      in case lines_loop e so pathElement attached fl segs [0 ..< length segs - 1] of
           Inl err \<Rightarrow> Inl err
         | Inr made \<Rightarrow>
             (let st1 = st\<lparr>ss_array := ss_array st @ map fst made,
                           ss_group := map_option (\<lambda>g. g\<lparr>sg_lines := sg_lines g @ map fst made\<rparr>) (ss_group st),
                           ss_isSelfIntersecting := False\<rparr>
              in case env_isect_segments e (map snd made) True of
                   Inl err \<Rightarrow> Inl err
                 | Inr selfIntersectionPoints \<Rightarrow>
                     (if length selfIntersectionPoints > 0
                      then
                        (let subSplitId = (if made = [] then [] else sl_id (fst (last made)));
                             doc1 = debug so (Debug ''{} in {} intersects itself with {} intersections!''
                                       [S subSplitId, S (pe_id pathElement), N (length selfIntersectionPoints)])
                                      (ss_doc st1);
                             group1 = map_option
                                        (\<lambda>g. (let g1 = (if highlight_self_intersecting so
                                                         then g\<lparr>sg_lines := map (\<lambda>l. l\<lparr>sl_style :=
                                                                  StrokeStyle (color_self_intersecting_paths so) (strokewidth so)\<rparr>)
                                                                  (sg_lines g)\<rparr>
                                                         else g)
                                               in if remove_self_intersecting so then g1\<lparr>sg_attached := False\<rparr> else g1))
                                        (ss_group st1)
                         in case (if visualize_self_intersections so
                                  then visualize_self pathElement selfIntersectionPoints doc1
                                  else Inr doc1) of
                              Inl err \<Rightarrow> Inl err
                            | Inr doc2 \<Rightarrow>
                                (if remove_self_intersecting so
                                 then Inr (st1\<lparr>ss_doc := delete_path (pe_id pathElement) doc2,
                                               ss_array := py_slice_to (int (length (ss_array st1)) - int (length segs) - 1)
                                                             (ss_array st1),
                                               ss_group := group1,
                                               ss_isSelfIntersecting := True\<rparr>)
                                 else Inr (st1\<lparr>ss_doc := doc2, ss_group := group1,
                                               ss_isSelfIntersecting := True\<rparr>)))
                      else Inr st1)))"

fun scan_sub_paths ::
  "env \<Rightarrow> options \<Rightarrow> path_element \<Rightarrow> path_flags \<Rightarrow> scan_state \<Rightarrow> path list \<Rightarrow> exn + scan_state" where
  "scan_sub_paths e so pathElement fl st [] = Inr st"
| "scan_sub_paths e so pathElement fl st (subPath # rest) =
     (case scan_sub_path e so pathElement fl st subPath of
        Inl err \<Rightarrow> Inl err
      | Inr st1 \<Rightarrow> scan_sub_paths e so pathElement fl st1 rest)"

text \<open>
  The style of the original path after the scan (lines 674 to 707): \<^verbatim>\<open>adjust_style\<close>
  when \<^verbatim>\<open>removefillsetstroke\<close> is set, then the highlighting, each later assignment
  replacing an earlier one.
\<close>

definition path_style :: "env \<Rightarrow> options \<Rightarrow> path_flags \<Rightarrow> bool \<Rightarrow> style \<Rightarrow> style" where
  "path_style e so fl selfIntersecting s =
     (let w = strokewidth so;
          s0 = (if removefillsetstroke so then env_adjust_style e (strokewidth so) s else s);
          s1 = (if isRelative fl \<and> highlight_relative so then StrokeStyle (color_relative so) w else s0);
          s2 = (if isAbsolute fl \<and> highlight_absolute so then StrokeStyle (color_absolute so) w else s1);
          s3 = (if isMixed fl \<and> highlight_mixed so then StrokeStyle (color_mixed so) w else s2);
          s4 = (if isBezier fl
                then (if highlight_beziers so then StrokeStyle (color_bezier so) w else s3)
                else (if highlight_polylines so then StrokeStyle (color_polyline so) w else s3));
          s5 = (if isClosed fl
                then (if highlight_closed so then StrokeStyle (color_closed so) w else s4)
                else (if highlight_opened so then StrokeStyle (color_opened so) w else s4))
      in if selfIntersecting \<and> highlight_self_intersecting so
         then StrokeStyle (color_self_intersecting_paths so) w else s5)"

definition set_path_style :: "string \<Rightarrow> (style \<Rightarrow> style) \<Rightarrow> document \<Rightarrow> document" where
  "set_path_style i f doc =
     doc\<lparr>doc_paths := map (\<lambda>pe. if pe_id pe = i then pe\<lparr>pe_style := f (pe_style pe)\<rparr> else pe) (doc_paths doc)\<rparr>"

text \<open>
  A path that no test has removed (lines 566 to 711): the group of its sub split
  lines, the loop over the sub paths of \<^verbatim>\<open>raw\<close>, and its style.
\<close>

definition split_path ::
  "env \<Rightarrow> options \<Rightarrow> document \<Rightarrow> sub_split_line list \<Rightarrow> path_element \<Rightarrow> path \<Rightarrow>
   path_flags \<Rightarrow> exn + document \<times> sub_split_line list" where
  "split_path e so doc1 subSplitLineArray pathElement raw fl =
     (let st0 = \<lparr>ss_doc = doc1, ss_array = subSplitLineArray,
                 ss_group = (if draw_subsplit so
                             then Some \<lparr>sg_id = idPrefix @ ''-'' @ pe_id pathElement,
                                         sg_lines = [], sg_attached = True\<rparr>
                             else None),
                 ss_isSelfIntersecting = False\<rparr>
      in case scan_sub_paths e so pathElement fl st0 (sub_paths raw) of
           Inl err \<Rightarrow> Inl err
         | Inr st1 \<Rightarrow>
             Inr ((set_path_style (pe_id pathElement)
                     (path_style e so fl (ss_isSelfIntersecting st1)) (ss_doc st1))
                    \<lparr>doc_subsplit_groups :=
                        doc_subsplit_groups (ss_doc st1) @
                        (case ss_group st1 of None \<Rightarrow> [] | Some g \<Rightarrow> [g])\<rparr>,
                  ss_array st1))"

text \<open>
  One turn of \<^verbatim>\<open>for pathElement in pathElements\<close> (lines 503 to 711): the document
  and \<^verbatim>\<open>subSplitLineArray\<close> before and after. The tests that remove the path come
  first (lines 503 to 569); a path that stays is split by \<^const>\<open>split_path\<close>. The
  tests for relative, absolute and curved paths read the letters of \<^verbatim>\<open>str(path)\<close>;
  the test for closed paths and the sub paths read \<^verbatim>\<open>raw = path.to_arrays()\<close>.
\<close>

definition scan_path ::
  "env \<Rightarrow> options \<Rightarrow> document \<times> sub_split_line list \<Rightarrow> path_element \<Rightarrow>
   exn + document \<times> sub_split_line list" where
  "scan_path e so st pathElement =
     (case st of (doc, subSplitLineArray) \<Rightarrow>
        (let p = pe_path pathElement;
             has_rel = list_ex (\<lambda>c. in_str c p) relCmds;
             has_abs = list_ex (\<lambda>c. in_str c p) relCmds_upper;
             both = (has_rel \<and> has_abs);
             has_curve = (in_str (CHR ''c'') p \<or> in_str (CHR ''C'') p);
             gone = Inr (delete_path (pe_id pathElement) doc, subSplitLineArray)
         in if remove_absolute so \<and> has_abs \<and> \<not> both then gone
            else if remove_relative so \<and> has_rel \<and> \<not> both then gone
            else if remove_mixed so \<and> both then gone
            else
              let doc1 = debug so (Debug ''sub path in {} is bezier: {}'' [S (pe_id pathElement), B has_curve]) doc;
                  gone1 = Inr (delete_path (pe_id pathElement) doc1, subSplitLineArray)
              in if remove_beziers so \<and> has_curve then gone1
                 else if remove_polylines so \<and> \<not> has_curve then gone1
                 else
                   let raw = env_to_arrays e p
                   in case is_closed raw of
                     Inl err \<Rightarrow> Inl err
                   | Inr closed_path \<Rightarrow>
                       if remove_opened so \<and> \<not> closed_path then gone1
                       else if remove_closed so \<and> closed_path then gone1
                       else split_path e so doc1 subSplitLineArray pathElement raw
                              \<lparr>isRelative = has_rel \<and> \<not> both, isAbsolute = has_abs \<and> \<not> both,
                                isMixed = both, isBezier = has_curve, isClosed = closed_path\<rparr>))"

fun scan_paths ::
  "env \<Rightarrow> options \<Rightarrow> document \<times> sub_split_line list \<Rightarrow> path_element list \<Rightarrow>
   exn + document \<times> sub_split_line list" where
  "scan_paths e so st [] = Inr st"
| "scan_paths e so st (pathElement # rest) =
     (case scan_path e so st pathElement of
        Inl err \<Rightarrow> Inl err
      | Inr st1 \<Rightarrow> scan_paths e so st1 rest)"

section \<open>trim\_bezier\<close>

text \<open>
  \<^verbatim>\<open>trim_bezier\<close> ("This function does not work yet") changes nothing in the document:
  it prints debug lines, divides by the total length of the trim lines of a group and
  builds a \<^verbatim>\<open>CubicSuperPath\<close> of the original path for every parameter it found. The
  second loop of the method, with \<^verbatim>\<open>chainLength\<close> as its state:
  \<^verbatim>\<open>
  for trimLine in trimGroup:
      ignore, lineLength = csplength(CubicSuperPath(trimLine.get('d')))
      chainLength += lineLength
      if trimLine.attrib.has_key('intersected') or trimLine == trimGroup[-1]:
          globalTParameter = chainLength / totalLength
          globalTParameters.append(globalTParameter)
          ... (two debug lines)
          chainLength = 0
  \<close>
  It returns the exception raised, if any, the parameters and the debug lines.
\<close>

fun chain_loop :: "env \<Rightarrow> real \<Rightarrow> real \<Rightarrow> trim_line list \<Rightarrow> exn option \<times> real list \<times> message list" where
  "chain_loop e totalLength chainLength [] = (None, [], [])"
| "chain_loop e totalLength chainLength (trimLine # rest) =
     (let chain1 = chainLength + env_csplength e (tl_path trimLine)
      in if tl_intersected trimLine \<or> rest = []
         then (if totalLength = 0 then (Some ZeroDivisionError, [], [])
               else (case chain_loop e totalLength 0 rest of
                       (err, ts, ms) \<Rightarrow>
                         (err, (chain1 / totalLength) # ts,
                          [Debug ''chain piece length = {}'' [R chain1],
                           Debug ''t parameter = {}'' [R (chain1 / totalLength)]] @ ms)))
         else chain_loop e totalLength chain1 rest)"

definition trim_bezier_group :: "env \<Rightarrow> options \<Rightarrow> document \<Rightarrow> trim_group \<Rightarrow> exn option \<times> message list" where
  "trim_bezier_group e so doc trimGroup =
     (if tg_originalPathIsBezier trimGroup
      then
        (let totalLength = sum_list (map (\<lambda>l. env_csplength e (tl_path l)) (tg_children trimGroup));
             ms0 = [Debug ''{}: count of trim lines = {}'' [S (tg_id trimGroup), N (length (tg_children trimGroup))],
                    Debug ''total length = {}'' [R totalLength]]
         in case chain_loop e totalLength 0 (tg_children trimGroup) of
              (Some err, ts, ms) \<Rightarrow> (Some err, ms0 @ ms)
            | (None, ts, ms) \<Rightarrow>
                (let ms1 = ms0 @ ms @
                       [Debug ''Trimming the original bezier path {} at global t parameters: {}''
                          [S (tg_originalPathId trimGroup), Rs ts]]
                 in if ts = [] then (None, ms1)
                    else (env_csp_of_element e (getElementById doc (tg_originalPathId trimGroup)), ms1)))
      else (None, []))"

fun trim_bezier :: "env \<Rightarrow> options \<Rightarrow> document \<Rightarrow> trim_group list \<Rightarrow> exn option \<times> message list" where
  "trim_bezier e so doc [] = (None, [])"
| "trim_bezier e so doc (trimGroup # rest) =
     (case trim_bezier_group e so doc trimGroup of
        (Some err, ms) \<Rightarrow> (Some err, ms)
      | (None, ms) \<Rightarrow> (case trim_bezier e so doc rest of (err, ms') \<Rightarrow> (err, ms @ ms')))"

section \<open>effect\<close>

text \<open>
  \<^verbatim>\<open>visualize_global_intersections\<close>: the group \<^verbatim>\<open>globalIntersectionPoints\<close> with one
  circle per point, each with a unique id.
\<close>

definition visualize_global :: "point list \<Rightarrow> document \<Rightarrow> document" where
  "visualize_global pts doc =
     (if length pts > 0
      then doc\<lparr>doc_global_intersection_points := Some pts, doc_uid := doc_uid doc + length pts\<rparr>
      else doc)"

text \<open>
  \<^verbatim>\<open>
  allTrimGroups = [] #container to collect all trim groups for later on processing
  for subSplitIndex in range(len(subSplitLineArray)):
      trimGroup = self.build_trim_line_group(subSplitLineArray, subSplitIndex, globalIntersectionPoints)
      if trimGroup is not None:
          if trimGroup not in allTrimGroups:
              allTrimGroups.append(trimGroup)
  \<close>
  The model starts from a document without trim groups, so every trim group of the
  document was made by this loop and entered \<^verbatim>\<open>allTrimGroups\<close> when it was made:
  \<^verbatim>\<open>allTrimGroups\<close> is \<open>doc_trim_groups\<close>. An exception comes with the document in
  which it was raised.
\<close>

fun build_loop ::
  "env \<Rightarrow> options \<Rightarrow> sub_split_line list \<Rightarrow> point list \<Rightarrow> document \<Rightarrow> nat list \<Rightarrow>
   (exn \<times> document) + document" where
  "build_loop e so subSplitLineArray pts doc [] = Inr doc"
| "build_loop e so subSplitLineArray pts doc (subSplitIndex # rest) =
     (case build_trim_line_group e so doc subSplitLineArray subSplitIndex pts of
        Inl err \<Rightarrow> Inl (err, doc)
      | Inr (doc1, trimGroup) \<Rightarrow> build_loop e so subSplitLineArray pts doc1 rest)"

definition delete_paths :: "path_element list \<Rightarrow> document \<Rightarrow> document" where
  "delete_paths pathElements doc = foldl (\<lambda>d pe. delete_path (pe_id pe) d) doc pathElements"

text \<open>
  The body of the \<^verbatim>\<open>try\<close> block (lines 721 to 761). It returns the document, or the
  exception raised together with the document at that moment.
\<close>

definition trimming ::
  "env \<Rightarrow> options \<Rightarrow> path_element list \<Rightarrow> document \<Rightarrow> sub_split_line list \<Rightarrow>
   (exn \<times> document) + document" where
  "trimming e so pathElements doc subSplitLineArray =
     (case env_isect_segments e (map (\<lambda>l. (sl_p1 l, sl_p2 l)) subSplitLineArray) True of
        Inl err \<Rightarrow> Inl (err, doc)
      | Inr globalIntersectionPoints \<Rightarrow>
          (let doc1 = debug so (Debug ''global intersection points count: {}''
                                  [N (length globalIntersectionPoints)]) doc
           in if length globalIntersectionPoints > 0
              then
                (let doc2 = (if visualize_global_intersections so
                             then visualize_global globalIntersectionPoints doc1 else doc1)
                 in case build_loop e so subSplitLineArray globalIntersectionPoints doc2
                           [0 ..< length subSplitLineArray] of
                      Inl err \<Rightarrow> Inl err
                    | Inr doc3 \<Rightarrow>
                        (let doc4 = debug so (Debug ''trim groups count: {}''
                                                [N (length (doc_trim_groups doc3))]) doc3;
                             doc5 = (if length (doc_trim_groups doc4) = 0
                                     then msg (Msg ''You selected to draw trimmed lines but no intersections could be calculated.'') doc4
                                     else doc4);
                             tb = (if bezier_trimming so
                                   then trim_bezier e so doc5 (doc_trim_groups doc5) else (None, []));
                             doc6 = (if show_debug so then msgs (snd tb) doc5 else doc5)
                         in case fst tb of
                              Some err \<Rightarrow> Inl (err, doc6)
                            | None \<Rightarrow>
                                (let doc7 = (if remove_duplicates so
                                             then (case remove_duplicates_pass so (doc_trim_groups doc6) of
                                                     (groups, ms) \<Rightarrow> msgs ms (doc6\<lparr>doc_trim_groups := groups\<rparr>))
                                             else doc6);
                                     doc8 = (if combine_nonintersects so
                                             then (case combine_nonintersects_pass so (doc_trim_groups doc7) of
                                                     (groups, ms) \<Rightarrow> msgs ms (doc7\<lparr>doc_trim_groups := groups\<rparr>))
                                             else doc7)
                                 in if \<not> keep_original_after_trim so
                                    then Inr (delete_paths pathElements doc8)
                                    else Inr doc8)))
              else Inr doc1))"

text \<open>The text that the handler of \<^verbatim>\<open>AssertionError\<close> prints (lines 764 to 768).\<close>

definition newline :: string where
  "newline = [CHR 0x0A]"

definition apostrophe :: string where
  "apostrophe = [CHR 0x27]"

definition error_text :: string where
  "error_text =
     ''Error calculating global intersections.'' @ newline @
     ''See https://github.com/ideasman42/isect_segments-bentley_ottmann.'' @ newline @ newline @
     ''You can try to fix this by:'' @ newline @
     ''- reduce or raise the '' @ apostrophe @ ''decimals'' @ apostrophe @
     '' setting (default is 3 but try to set to 6 for example)'' @ newline @
     ''- reduce or raise the '' @ apostrophe @ ''flatness'' @ apostrophe @
     '' setting (if quantization option is used at all; default is 0.100).''"

text \<open>
  \<^verbatim>\<open>effect\<close>, from the list that \<^verbatim>\<open>get_path_elements\<close> returns. The document is
  followed as far as the method reads and changes it: the paths of that list, and the
  groups, circles and messages the method adds. An exception that leaves the method is
  the result \<open>Inl\<close>; only \<^verbatim>\<open>AssertionError\<close> raised inside the \<^verbatim>\<open>try\<close> block is
  caught.
\<close>

definition initial_document :: "path_element list \<Rightarrow> document" where
  "initial_document pathElements =
     \<lparr>doc_paths = pathElements, doc_subsplit_groups = [], doc_self_intersection_groups = [],
      doc_global_intersection_points = None, doc_trim_groups = [], doc_msgs = [], doc_uid = 0\<rparr>"

definition scan :: "env \<Rightarrow> options \<Rightarrow> path_element list \<Rightarrow> exn + document \<times> sub_split_line list" where
  "scan e so pathElements =
     (let doc0 = initial_document pathElements;
          doc1 = (if break_apart so \<and> show_debug so
                  then msg (Msg (''Warning: '' @ apostrophe @ ''Break apart input'' @ apostrophe @
                            '' setting is enabled. Cannot check accordingly for relative, absolute or mixed paths for breaked elements (they are always absolute)!'')) doc0
                  else doc0)
      in case scan_paths e so (doc1, []) pathElements of
           Inl err \<Rightarrow> Inl err
         | Inr (doc2, subSplitLineArray) \<Rightarrow>
             Inr (debug so (Debug ''sub split line count: {}'' [N (length subSplitLineArray)]) doc2,
                  subSplitLineArray))"

definition effect :: "env \<Rightarrow> options \<Rightarrow> path_element list \<Rightarrow> exn + document" where
  "effect e so pathElements =
     (case scan e so pathElements of
        Inl err \<Rightarrow> Inl err
      | Inr (doc, subSplitLineArray) \<Rightarrow>
          (if draw_trimmed so
           then (case trimming e so pathElements doc subSplitLineArray of
                   Inr doc1 \<Rightarrow> Inr doc1
                 | Inl (err, doc1) \<Rightarrow>
                     (if err = AssertionError then Inr (msg (Msg error_text) doc1) else Inl err))
           else Inr doc))"

section \<open>Concrete inputs\<close>

text \<open>The defaults of \<^verbatim>\<open>add_arguments\<close>.\<close>

definition default_options :: options where
  "default_options =
     \<lparr>show_debug = False, break_apart = False, handle_groups = False,
      trimming_path_types = ''closed_paths'', flattenbezier = True, flatness = 1 / 10,
      decimals = 3, snap_tolerance = 1 / 10,
      remove_relative = False, remove_absolute = False, remove_mixed = False,
      remove_polylines = False, remove_beziers = False, remove_opened = False,
      remove_closed = False, remove_self_intersecting = False,
      highlight_relative = False, highlight_absolute = False, highlight_mixed = False,
      highlight_polylines = False, highlight_beziers = False, highlight_opened = False,
      highlight_closed = False, highlight_self_intersecting = False,
      draw_subsplit = False, visualize_self_intersections = False,
      visualize_global_intersections = False,
      draw_trimmed = False, combine_nonintersects = True, remove_duplicates = True,
      reverse_removal_order = False, keep_original_after_trim = False,
      strokewidth = 1, dotsize_intersections = 30, removefillsetstroke = False,
      bezier_trimming = False, apply_style_to_subsplits = True, apply_style_to_trimmed = True,
      color_subsplit = ''1630897151'', color_relative = ''3419879935'',
      color_absolute = ''1592519679'', color_mixed = ''3351636735'',
      color_polyline = ''4289703935'', color_bezier = ''258744063'',
      color_opened = ''4012452351'', color_closed = ''2330080511'',
      color_self_intersecting_paths = ''2593756927'', color_self_intersections = ''6320383'',
      color_global_intersections = ''4239343359'',
      color_trimmed = ''1923076095'', color_combined = ''3227634687'',
      color_nonintersected = ''3045284607''\<rparr>"

text \<open>
  Libraries for concrete runs: a sweep line whose answer is given, no transform, no
  rounding, segments read as they are, and a geometry library that cuts a horizontal
  segment at the first of the given points that lies strictly inside it (it returns
  the segment whole when there is none). Its \<^verbatim>\<open>to_arrays\<close> is for paths made of the
  commands M, L, C, Z and their relative forms m, l, c, z: a relative command is
  written with its upper-case letter and with its arguments moved by the point
  reached so far, \<^verbatim>\<open>z\<close> becomes \<^verbatim>\<open>Z\<close> and leads back to the start of the sub path;
  a command with another letter is passed on as it is.
\<close>

fun shift_args :: "point \<Rightarrow> real list \<Rightarrow> real list" where
  "shift_args d (x # y # rest) = (x + fst d) # (y + snd d) # shift_args d rest"
| "shift_args d rest = rest"

definition end_point :: "point \<Rightarrow> real list \<Rightarrow> point" where
  "end_point prev args = (case last_two args of Inl err \<Rightarrow> prev | Inr q \<Rightarrow> q)"

fun to_arrays_from :: "point \<Rightarrow> point \<Rightarrow> path \<Rightarrow> path" where
  "to_arrays_from prev start [] = []"
| "to_arrays_from prev start ((c, args) # rest) =
     (if c = CHR ''z'' \<or> c = CHR ''Z'' then (CHR ''Z'', []) # to_arrays_from start start rest
      else
        (let relative = (c = CHR ''m'' \<or> c = CHR ''l'' \<or> c = CHR ''c'');
             letter = (if c = CHR ''m'' then CHR ''M'' else if c = CHR ''l'' then CHR ''L''
                       else if c = CHR ''c'' then CHR ''C'' else c);
             args1 = (if relative then shift_args prev args else args);
             q = end_point prev args1
         in (letter, args1) # to_arrays_from q (if letter = CHR ''M'' then q else start) rest))"

definition to_arrays :: "path \<Rightarrow> path" where
  "to_arrays p = to_arrays_from (0, 0) (0, 0) p"

definition cut_horizontal :: "segment \<Rightarrow> point list \<Rightarrow> real \<Rightarrow> linestring list" where
  "cut_horizontal seg pts tol =
     (case seg of ((x1, y1), (x2, y2)) \<Rightarrow>
        (case filter (\<lambda>p. snd p = y1 \<and> y1 = y2 \<and> x1 < fst p \<and> fst p < x2) pts of
           [] \<Rightarrow> [((x1, y1), (x2, y2), [])]
         | c # others \<Rightarrow> [((x1, y1), c, []), (c, (x2, y2), [])]))"

definition test_env :: "(segment list \<Rightarrow> bool \<Rightarrow> exn + point list) \<Rightarrow> env" where
  "test_env isect =
     \<lparr>env_isect_segments = isect,
      env_round = (\<lambda>x dec. x),
      env_to_arrays = to_arrays,
      env_to_segments = (\<lambda>p. p),
      env_cspsubdiv = (\<lambda>p fl. p),
      env_parent_inverse = (\<lambda>i p. p),
      env_self_inverse = (\<lambda>i p. p),
      env_snap_split = cut_horizontal,
      env_random = string_of_nat,
      env_csplength = (\<lambda>p. 0),
      env_csp_of_element = (\<lambda>pe. None),
      env_adjust_style = (\<lambda>w s. s)\<rparr>"

definition polyline :: "string \<Rightarrow> point list \<Rightarrow> path_element" where
  "polyline i pts =
     \<lparr>pe_id = i,
      pe_path = (case pts of [] \<Rightarrow> []
                 | p # rest \<Rightarrow> (CHR ''M'', [fst p, snd p]) # map (\<lambda>q. (CHR ''L'', [fst q, snd q])) rest),
      pe_style = ElementStyle ''stroke:#000000'',
      pe_in_root = True\<rparr>"

text \<open>
  What a run shows of the marking: for every trim line of the document, in order,
  whether its id contains the intersected verb and whether it has the attribute
  \<^verbatim>\<open>intersected\<close>.
\<close>

definition marks :: "document \<Rightarrow> (bool \<times> bool) list" where
  "marks doc =
     concat (map (\<lambda>g. map (\<lambda>l. (has_intersectedVerb (tl_id l), tl_intersected l)) (tg_children g))
               (doc_trim_groups doc))"

text \<open>
  The options with which the scan deletes no path and gives no path a new style:
  the eight \<^verbatim>\<open>remove_\<close> options, \<^verbatim>\<open>removefillsetstroke\<close> and the eight
  \<^verbatim>\<open>highlight_\<close> options are off.
\<close>

definition scan_keeps_paths :: "options \<Rightarrow> bool" where
  "scan_keeps_paths so =
     (\<not> remove_relative so \<and> \<not> remove_absolute so \<and> \<not> remove_mixed so \<and>
      \<not> remove_polylines so \<and> \<not> remove_beziers so \<and> \<not> remove_opened so \<and>
      \<not> remove_closed so \<and> \<not> remove_self_intersecting so \<and> \<not> removefillsetstroke so \<and>
      \<not> highlight_relative so \<and> \<not> highlight_absolute so \<and> \<not> highlight_mixed so \<and>
      \<not> highlight_polylines so \<and> \<not> highlight_beziers so \<and> \<not> highlight_opened so \<and>
      \<not> highlight_closed so \<and> \<not> highlight_self_intersecting so)"

text \<open>
  Modelled from the spec: the sweep line \<^verbatim>\<open>poly_point_isect.isect_segments\<close> is a file of
  the repository that is not among the sources read here. Of its contract (section 4.3
  and the adjacency property of section 8) only the sentence on shared endpoints is
  modelled: the vertex that connects two consecutive segments of the list is left out
  when \<^verbatim>\<open>validate\<close> is set and reported when it is not. Crossings are not modelled; the
  function is used on segments that meet nowhere else.
\<close>

fun adjacent_vertices :: "segment list \<Rightarrow> point list" where
  "adjacent_vertices (s1 # s2 # rest) =
     (if snd s1 = fst s2 then [snd s1] else []) @ adjacent_vertices (s2 # rest)"
| "adjacent_vertices segs = []"

definition adjacent_isect :: "segment list \<Rightarrow> bool \<Rightarrow> exn + point list" where
  "adjacent_isect segs validate = Inr (if validate then [] else adjacent_vertices segs)"

text \<open>
  The intersection points that a run shows: the circles it draws for the self
  intersections of the paths and for the global intersections. A run that raises shows
  none.
\<close>

definition reported :: "exn + document \<Rightarrow> point list" where
  "reported r =
     (case r of
        Inl err \<Rightarrow> []
      | Inr doc \<Rightarrow>
          concat (map snd (doc_self_intersection_groups doc)) @
          (case doc_global_intersection_points doc of None \<Rightarrow> [] | Some pts \<Rightarrow> pts))"

text \<open>
  The sub split lines that a run draws, group by group, as pairs of points; and a path
  of one curve.
\<close>

definition drawn_lines :: "document \<Rightarrow> segment list list" where
  "drawn_lines doc = map (\<lambda>g. map (\<lambda>l. (sl_p1 l, sl_p2 l)) (sg_lines g)) (doc_subsplit_groups doc)"

definition one_curve :: path_element where
  "one_curve =
     \<lparr>pe_id = ''c'', pe_path = [(CHR ''M'', [0, 0]), (CHR ''C'', [1, 2, 3, 4, 5, 6])],
      pe_style = ElementStyle ''stroke:#000000'', pe_in_root = True\<rparr>"

section \<open>Verification\<close>

subsection \<open>remove\_duplicates: which lines are duplicates, and idempotence\<close>

lemma dedup_elements_seen:
  "dedup_elements seen es = (seen', kept, del) \<Longrightarrow> seen' = seen @ map tl_path kept"
proof (induction es arbitrary: seen seen' kept del)
  case Nil
  then show ?case by simp
next
  case (Cons e es)
  show ?case
  proof (cases "tl_path e \<in> set seen")
    case True
    with Cons.prems obtain d where "dedup_elements seen es = (seen', kept, d)"
      by (auto split: prod.splits)
    then show ?thesis by (rule Cons.IH)
  next
    case False
    with Cons.prems obtain k where k: "dedup_elements (seen @ [tl_path e]) es = (seen', k, del)" "kept = e # k"
      by (auto split: prod.splits)
    from Cons.IH [OF k(1)] k(2) show ?thesis by simp
  qed
qed

lemma dedup_elements_id:
  "distinct (seen @ map tl_path es) \<Longrightarrow>
   dedup_elements seen es = (seen @ map tl_path es, es, [])"
  by (induction es arbitrary: seen) (auto split: prod.splits)

lemma dedup_elements_distinct:
  "dedup_elements seen es = (seen', kept, del) \<Longrightarrow> distinct seen \<Longrightarrow> distinct seen'"
  by (induction es arbitrary: seen seen' kept del) (auto split: prod.splits if_splits)

lemma dedup_groups_seen_distinct:
  "dedup_groups seen gs = (gs', del) \<Longrightarrow> distinct seen \<Longrightarrow> distinct (seen @ trim_paths gs')"
proof (induction gs arbitrary: seen gs' del)
  case Nil
  then show ?case by (simp add: trim_paths_def)
next
  case (Cons g gs)
  obtain s k d where e: "dedup_elements seen (tg_children g) = (s, k, d)"
    by (cases "dedup_elements seen (tg_children g)") auto
  obtain r d' where r: "dedup_groups s gs = (r, d')"
    by (cases "dedup_groups s gs") auto
  have s: "s = seen @ map tl_path k" using e by (rule dedup_elements_seen)
  have ds: "distinct s" using e Cons.prems(2) by (rule dedup_elements_distinct)
  have "distinct (s @ trim_paths r)" using r ds by (rule Cons.IH)
  moreover have "trim_paths gs' = map tl_path k @ trim_paths r"
    using Cons.prems(1) e r by (auto simp: trim_paths_def split: if_splits)
  ultimately show ?case using s by simp
qed

lemma dedup_groups_detached:
  "dedup_groups seen gs = (gs', del) \<Longrightarrow> g \<in> set gs' \<Longrightarrow> tg_children g = [] \<Longrightarrow> \<not> tg_attached g"
proof (induction gs arbitrary: seen gs' del)
  case Nil
  then show ?case by simp
next
  case (Cons a gs)
  obtain s k d where e: "dedup_elements seen (tg_children a) = (s, k, d)"
    by (cases "dedup_elements seen (tg_children a)") auto
  obtain r d' where r: "dedup_groups s gs = (r, d')"
    by (cases "dedup_groups s gs") auto
  from Cons.prems(1) e r have "gs' = (if k = [] then a\<lparr>tg_children := k, tg_attached := False\<rparr> else a\<lparr>tg_children := k\<rparr>) # r"
    by (auto split: if_splits)
  with Cons.prems(2,3) Cons.IH [OF r] show ?case by (auto split: if_splits)
qed

lemma dedup_groups_id:
  "distinct (seen @ trim_paths gs) \<Longrightarrow> (\<And>g. g \<in> set gs \<Longrightarrow> tg_children g = [] \<Longrightarrow> \<not> tg_attached g) \<Longrightarrow>
   fst (dedup_groups seen gs) = gs"
proof (induction gs arbitrary: seen)
  case Nil
  then show ?case by simp
next
  case (Cons g gs)
  have tp: "trim_paths (g # gs) = map tl_path (tg_children g) @ trim_paths gs"
    by (simp add: trim_paths_def)
  have "distinct (seen @ map tl_path (tg_children g))" using Cons.prems(1) tp by auto
  then have e: "dedup_elements seen (tg_children g) = (seen @ map tl_path (tg_children g), tg_children g, [])"
    by (rule dedup_elements_id)
  have "distinct ((seen @ map tl_path (tg_children g)) @ trim_paths gs)" using Cons.prems(1) tp by auto
  then have r: "fst (dedup_groups (seen @ map tl_path (tg_children g)) gs) = gs"
    using Cons.prems(2) by (intro Cons.IH) auto
  have "tg_children g = [] \<Longrightarrow> \<not> tg_attached g" using Cons.prems(2) by simp
  then have "tg_children g = [] \<Longrightarrow> g\<lparr>tg_children := [], tg_attached := False\<rparr> = g"
    by (cases g) simp
  moreover have "g\<lparr>tg_children := tg_children g\<rparr> = g" by simp
  ultimately show ?case using e r
    by (cases "tg_children g = []") (auto split: prod.splits)
qed

lemma dedup_groups_nothing_deleted:
  "distinct (seen @ trim_paths gs) \<Longrightarrow> (\<And>g. g \<in> set gs \<Longrightarrow> tg_children g \<noteq> []) \<Longrightarrow>
   dedup_groups seen gs = (gs, [])"
proof (induction gs arbitrary: seen)
  case Nil
  then show ?case by simp
next
  case (Cons g gs)
  have tp: "trim_paths (g # gs) = map tl_path (tg_children g) @ trim_paths gs"
    by (simp add: trim_paths_def)
  have "distinct (seen @ map tl_path (tg_children g))" using Cons.prems(1) tp by auto
  then have e: "dedup_elements seen (tg_children g) = (seen @ map tl_path (tg_children g), tg_children g, [])"
    by (rule dedup_elements_id)
  have "distinct ((seen @ map tl_path (tg_children g)) @ trim_paths gs)" using Cons.prems(1) tp by auto
  then have r: "dedup_groups (seen @ map tl_path (tg_children g)) gs = (gs, [])"
    using Cons.prems(2) by (intro Cons.IH) auto
  have "tg_children g \<noteq> []" using Cons.prems(2) by simp
  moreover have "g\<lparr>tg_children := tg_children g\<rparr> = g" by simp
  ultimately show ?case using e r by simp
qed

lemma trim_paths_filter_subset: "set (trim_paths (filter Q gs)) \<subseteq> set (trim_paths gs)"
  by (induction gs) (auto simp: trim_paths_def)

lemma trim_paths_filter_distinct:
  "distinct (trim_paths gs) \<Longrightarrow> distinct (trim_paths (filter Q gs))"
proof (induction gs)
  case Nil
  then show ?case by simp
next
  case (Cons g gs)
  have tp: "trim_paths (g # gs) = map tl_path (tg_children g) @ trim_paths gs"
    by (simp add: trim_paths_def)
  have tq: "trim_paths (g # filter Q gs) = map tl_path (tg_children g) @ trim_paths (filter Q gs)"
    by (simp add: trim_paths_def)
  from Cons show ?case using trim_paths_filter_subset [of Q gs]
    by (cases "Q g") (auto simp: tp tq)
qed

lemma keep_first_rev_remdups: "keep_first xs = rev (remdups (rev xs))"
proof (induction xs)
  case Nil
  then show ?case by simp
next
  case (Cons x xs)
  have "remdups (ys @ [x]) = filter (\<lambda>y. y \<noteq> x) (remdups ys) @ [x]" for ys
    by (induction ys) auto
  then show ?case using Cons by (simp add: rev_filter)
qed

lemma filter_filter_notin:
  "filter (\<lambda>y. y \<noteq> x) (filter (\<lambda>y. y \<notin> A) zs) = filter (\<lambda>y. y \<notin> insert x A) zs"
  by (induction zs) auto

lemma keep_first_append:
  "keep_first (xs @ ys) = keep_first xs @ filter (\<lambda>y. y \<notin> set xs) (keep_first ys)"
  by (induction xs) (auto intro: filter_cong)

lemma dedup_elements_kept:
  "dedup_elements seen es = (seen', kept, del) \<Longrightarrow>
   map tl_path kept = filter (\<lambda>p. p \<notin> set seen) (keep_first (map tl_path es))"
proof (induction es arbitrary: seen seen' kept del)
  case Nil
  then show ?case by simp
next
  case (Cons e es)
  let ?F = "keep_first (map tl_path es)"
  show ?case
  proof (cases "tl_path e \<in> set seen")
    case True
    with Cons.prems obtain d where "dedup_elements seen es = (seen', kept, d)"
      by (auto split: prod.splits)
    then have "map tl_path kept = filter (\<lambda>p. p \<notin> set seen) ?F" by (rule Cons.IH)
    also have "\<dots> = filter (\<lambda>p. p \<notin> set seen) (filter (\<lambda>y. y \<noteq> tl_path e) ?F)"
      using True by (auto intro: filter_cong)
    finally show ?thesis using True by simp
  next
    case False
    with Cons.prems obtain k where k: "dedup_elements (seen @ [tl_path e]) es = (seen', k, del)" "kept = e # k"
      by (auto split: prod.splits)
    have "map tl_path k = filter (\<lambda>p. p \<notin> set (seen @ [tl_path e])) ?F" using k(1) by (rule Cons.IH)
    also have "\<dots> = filter (\<lambda>p. p \<notin> set seen) (filter (\<lambda>y. y \<noteq> tl_path e) ?F)"
      by (auto intro: filter_cong)
    finally show ?thesis using False k(2) by simp
  qed
qed

lemma dedup_groups_kept:
  "dedup_groups seen gs = (gs', del) \<Longrightarrow>
   trim_paths gs' = filter (\<lambda>p. p \<notin> set seen) (keep_first (trim_paths gs))"
proof (induction gs arbitrary: seen gs' del)
  case Nil
  then show ?case by (simp add: trim_paths_def)
next
  case (Cons g gs)
  let ?xs = "map tl_path (tg_children g)"
  obtain s k d where e: "dedup_elements seen (tg_children g) = (s, k, d)"
    by (cases "dedup_elements seen (tg_children g)") auto
  obtain r d' where r: "dedup_groups s gs = (r, d')"
    by (cases "dedup_groups s gs") auto
  have s: "s = seen @ map tl_path k" using e by (rule dedup_elements_seen)
  have k: "map tl_path k = filter (\<lambda>p. p \<notin> set seen) (keep_first ?xs)"
    using e by (rule dedup_elements_kept)
  have "set (keep_first ?xs) = set ?xs"
    by (simp add: keep_first_rev_remdups)
  then have sets: "set s = set seen \<union> set ?xs" unfolding s k by auto
  have "trim_paths r = filter (\<lambda>p. p \<notin> set s) (keep_first (trim_paths gs))" using r by (rule Cons.IH)
  also have "\<dots> = filter (\<lambda>p. p \<notin> set seen) (filter (\<lambda>p. p \<notin> set ?xs) (keep_first (trim_paths gs)))"
    unfolding sets by (auto intro: filter_cong)
  finally have rr: "trim_paths r =
      filter (\<lambda>p. p \<notin> set seen) (filter (\<lambda>p. p \<notin> set ?xs) (keep_first (trim_paths gs)))" .
  have "trim_paths gs' = map tl_path k @ trim_paths r"
    using Cons.prems(1) e r by (auto simp: trim_paths_def split: if_splits)
  moreover have "trim_paths (g # gs) = ?xs @ trim_paths gs" by (simp add: trim_paths_def)
  ultimately show ?case by (simp only: k rr keep_first_append filter_append)
qed

lemma dedup_groups_idem:
  assumes "dedup_groups [] gs = (gs', del)"
  shows "fst (dedup_groups [] gs') = gs'"
proof (rule dedup_groups_id)
  show "distinct ([] @ trim_paths gs')"
    using dedup_groups_seen_distinct [OF assms] by simp
  show "\<not> tg_attached g" if "g \<in> set gs'" "tg_children g = []" for g
    using dedup_groups_detached [OF assms that] .
qed

lemma dedup_groups_attached_idem:
  assumes "dedup_groups [] gs = (gs', del)"
  shows "dedup_groups [] (filter tg_attached gs') = (filter tg_attached gs', [])"
proof (rule dedup_groups_nothing_deleted)
  have "distinct (trim_paths gs')"
    using dedup_groups_seen_distinct [OF assms] by simp
  then show "distinct ([] @ trim_paths (filter tg_attached gs'))"
    by (simp add: trim_paths_filter_distinct)
  show "tg_children g \<noteq> []" if "g \<in> set (filter tg_attached gs')" for g
    using dedup_groups_detached [OF assms, of g] that by auto
qed

text \<open>
  C2, as the code has it. The pass compares whole paths with \<^verbatim>\<open>not in\<close>, that is
  with equality: no tolerance and no reversed orientation. Read in the order of
  processing (the groups reversed under \<^verbatim>\<open>reverse_removal_order\<close>), the paths
  that stay are the first occurrence of every distinct path, and nothing else.
\<close>

theorem remove_duplicates_first_occurrence:
  "trim_paths (if reverse_removal_order so then rev (fst (remove_duplicates_pass so allTrimGroups))
               else fst (remove_duplicates_pass so allTrimGroups)) =
   keep_first (trim_paths (if reverse_removal_order so then rev allTrimGroups else allTrimGroups))"
proof (cases "reverse_removal_order so")
  case True
  obtain G d where G: "dedup_groups [] (rev allTrimGroups) = (G, d)"
    by (cases "dedup_groups [] (rev allTrimGroups)") auto
  from dedup_groups_kept [OF G] True G show ?thesis
    by (simp add: remove_duplicates_pass_def)
next
  case False
  obtain G d where G: "dedup_groups [] allTrimGroups = (G, d)"
    by (cases "dedup_groups [] allTrimGroups") auto
  from dedup_groups_kept [OF G] False G show ?thesis
    by (simp add: remove_duplicates_pass_def)
qed

text \<open>
  C2, as the specification states it, fails: the lines (1,1)-(2,2) and (2,2)-(1,1)
  are not duplicates of each other under any setting of the options, so the pass never
  leaves exactly one of them.
\<close>

theorem remove_duplicates_reversed_counterexample:
  "\<not> (\<exists>so. length (trim_paths (fst (remove_duplicates_pass so
        [one_group ''a'' (seg_line ''a-0'' (1, 1) (2, 2)),
         one_group ''b'' (seg_line ''b-0'' (2, 2) (1, 1))]))) = 1)"
  by (simp add: remove_duplicates_pass_def trim_paths_def one_group_def seg_line_def)

text \<open>
  C8: a second pass over the result of a first pass, with the same options, changes no
  group and deletes nothing (it has no debug line to print).
\<close>

theorem remove_duplicates_idempotent:
  "fst (remove_duplicates_pass so (fst (remove_duplicates_pass so allTrimGroups))) =
     fst (remove_duplicates_pass so allTrimGroups) \<and>
   remove_duplicates_pass so (filter tg_attached (fst (remove_duplicates_pass so allTrimGroups))) =
     (filter tg_attached (fst (remove_duplicates_pass so allTrimGroups)), [])"
proof (cases "reverse_removal_order so")
  case True
  obtain G d where G: "dedup_groups [] (rev allTrimGroups) = (G, d)"
    by (cases "dedup_groups [] (rev allTrimGroups)") auto
  have "fst (dedup_groups [] G) = G" using G by (rule dedup_groups_idem)
  moreover have "dedup_groups [] (filter tg_attached G) = (filter tg_attached G, [])"
    using G by (rule dedup_groups_attached_idem)
  ultimately show ?thesis using True G
    by (auto simp: remove_duplicates_pass_def deleting_msgs_def rev_filter [symmetric] split: prod.splits)
next
  case False
  obtain G d where G: "dedup_groups [] allTrimGroups = (G, d)"
    by (cases "dedup_groups [] allTrimGroups") auto
  have "fst (dedup_groups [] G) = G" using G by (rule dedup_groups_idem)
  moreover have "dedup_groups [] (filter tg_attached G) = (filter tg_attached G, [])"
    using G by (rule dedup_groups_attached_idem)
  ultimately show ?thesis using False G
    by (auto simp: remove_duplicates_pass_def deleting_msgs_def split: prod.splits)
qed

subsection \<open>combine\_nonintersects: what the merged line holds\<close>

lemma newPathData_loop_args:
  "snd prev # map snd (newPathData_loop prev rest) = remdups_adj (snd prev # map snd rest)"
proof (induction rest arbitrary: prev)
  case Nil
  then show ?case by simp
next
  case (Cons c rest)
  show ?case
  proof (cases "snd c = snd prev")
    case True
    then show ?thesis using Cons [of c] by simp
  next
    case False
    then show ?thesis using Cons [of c] by simp
  qed
qed

lemma newPathData_args: "map snd (newPathData segData) = remdups_adj (map snd segData)"
proof (cases segData)
  case Nil
  then show ?thesis by (simp add: newPathData_def)
next
  case (Cons c rest)
  then show ?thesis using newPathData_loop_args [of c rest] by (simp add: newPathData_def)
qed

lemma combine_fold_inv:
  assumes "foldl combine_step (None, [], 0, []) es = (cp, cdata, tot, kept)"
  shows "cdata = concat (map tl_path (filter (\<lambda>p. \<not> has_intersectedVerb (tl_id p)) es)) \<and>
         (case cp of
            None \<Rightarrow> list_all (\<lambda>p. has_intersectedVerb (tl_id p)) kept \<and> cdata = []
          | Some i \<Rightarrow> \<exists>A k B r. kept = A @ k # B \<and> i = length A \<and>
                list_all (\<lambda>p. has_intersectedVerb (tl_id p)) A \<and>
                list_all (\<lambda>p. has_intersectedVerb (tl_id p)) B \<and>
                \<not> has_intersectedVerb (tl_id k) \<and> cdata = tl_path k @ r)"
  using assms
proof (induction es arbitrary: cp cdata tot kept rule: rev_induct)
  case Nil
  then show ?case by simp
next
  case (snoc e es)
  let ?V = "\<lambda>p. has_intersectedVerb (tl_id p)"
  let ?D = "\<lambda>xs. concat (map tl_path (filter (\<lambda>p. \<not> ?V p) xs))"
  obtain cp0 d0 t0 k0 where st: "foldl combine_step (None, [], 0, []) es = (cp0, d0, t0, k0)"
    by (cases "foldl combine_step (None, [], 0, []) es") auto
  from snoc.IH [OF st] have d0: "d0 = ?D es"
    and inv0: "case cp0 of None \<Rightarrow> list_all ?V k0 \<and> d0 = []
               | Some i \<Rightarrow> \<exists>A k B r. k0 = A @ k # B \<and> i = length A \<and> list_all ?V A \<and>
                   list_all ?V B \<and> \<not> ?V k \<and> d0 = tl_path k @ r"
    by blast+
  from snoc.prems st have step: "combine_step (cp0, d0, t0, k0) e = (cp, cdata, tot, kept)"
    by simp
  have De: "?D (es @ [e]) = (if ?V e then ?D es else ?D es @ tl_path e)"
    by simp
  show ?case
  proof (cases cp0)
    case None
    with inv0 have k0: "list_all ?V k0" and d0e: "d0 = []" by simp_all
    show ?thesis
    proof (cases "?V e")
      case True
      with step None have eq: "cp = None" "cdata = d0" "kept = k0 @ [e]"
        by (auto simp: combine_step_def)
      have "cdata = ?D (es @ [e])" unfolding De eq(2) using True d0 by (simp only: if_True)
      moreover have "list_all ?V kept \<and> cdata = []" using eq k0 d0e True by simp
      ultimately show ?thesis unfolding eq(1) by (simp only: option.case simp_thms)
    next
      case False
      with step None have eq: "cp = Some (length k0)" "cdata = tl_path e" "kept = k0 @ [e]"
        by (auto simp: combine_step_def)
      have "?D es = []" using d0 d0e by (simp only:)
      then have "cdata = ?D (es @ [e])" unfolding De eq(2) using False by (simp only: if_False append_Nil)
      moreover have "kept = k0 @ e # [] \<and> length k0 = length k0 \<and> list_all ?V k0 \<and>
          list_all ?V [] \<and> \<not> ?V e \<and> cdata = tl_path e @ []"
        using eq k0 False by simp
      then have "\<exists>A k B r. kept = A @ k # B \<and> length k0 = length A \<and> list_all ?V A \<and>
          list_all ?V B \<and> \<not> ?V k \<and> cdata = tl_path k @ r"
        by blast
      ultimately show ?thesis unfolding eq(1) by (simp only: option.case simp_thms)
    qed
  next
    case (Some i)
    with inv0 obtain A k B r where k: "k0 = A @ k # B" "i = length A" "list_all ?V A"
        "list_all ?V B" "\<not> ?V k" "d0 = tl_path k @ r"
      by auto
    show ?thesis
    proof (cases "?V e")
      case True
      with step Some have eq: "cp = Some i" "cdata = d0" "kept = k0 @ [e]"
        by (auto simp: combine_step_def)
      have "cdata = ?D (es @ [e])" unfolding De eq(2) using True d0 by (simp only: if_True)
      moreover have "kept = A @ k # (B @ [e]) \<and> i = length A \<and> list_all ?V A \<and>
          list_all ?V (B @ [e]) \<and> \<not> ?V k \<and> cdata = tl_path k @ r"
        using eq k True by simp
      then have "\<exists>A k B r. kept = A @ k # B \<and> i = length A \<and> list_all ?V A \<and>
          list_all ?V B \<and> \<not> ?V k \<and> cdata = tl_path k @ r"
        by blast
      ultimately show ?thesis unfolding eq(1) by (simp only: option.case simp_thms)
    next
      case False
      with step Some have eq: "cp = Some i" "cdata = d0 @ tl_path e" "kept = k0"
        by (auto simp: combine_step_def)
      have "cdata = ?D (es @ [e])" unfolding De eq(2) using False d0 by (simp only: if_False)
      moreover have "kept = A @ k # B \<and> i = length A \<and> list_all ?V A \<and>
          list_all ?V B \<and> \<not> ?V k \<and> cdata = tl_path k @ (r @ tl_path e)"
        using eq k by simp
      then have "\<exists>A k B r. kept = A @ k # B \<and> i = length A \<and> list_all ?V A \<and>
          list_all ?V B \<and> \<not> ?V k \<and> cdata = tl_path k @ r"
        by blast
      ultimately show ?thesis unfolding eq(1) by (simp only: option.case simp_thms)
    qed
  qed
qed

lemma filter_all_verb:
  "list_all Q xs \<Longrightarrow> filter (\<lambda>p. \<not> Q p) xs = []"
  by (induction xs) auto

lemma combine_group_merged:
  "filter (\<lambda>p. \<not> has_intersectedVerb (tl_id p)) (tg_children (fst (combine_group so g))) = [] \<and>
     concat (map tl_path (filter (\<lambda>p. \<not> has_intersectedVerb (tl_id p)) (tg_children g))) = [] \<or>
   (\<exists>m. filter (\<lambda>p. \<not> has_intersectedVerb (tl_id p)) (tg_children (fst (combine_group so g))) = [m] \<and>
     tl_path m = newPathData (concat (map tl_path (filter (\<lambda>p. \<not> has_intersectedVerb (tl_id p)) (tg_children g)))))"
proof -
  let ?V = "\<lambda>p. has_intersectedVerb (tl_id p)"
  obtain cp cdata tot kept where st: "foldl combine_step (None, [], 0, []) (tg_children g) = (cp, cdata, tot, kept)"
    by (cases "foldl combine_step (None, [], 0, []) (tg_children g)") auto
  note inv = combine_fold_inv [OF st]
  show ?thesis
  proof (cases cp)
    case None
    with inv have "list_all ?V kept" "cdata = []" by auto
    then show ?thesis using st inv None by (simp add: combine_group_def filter_all_verb)
  next
    case (Some i)
    with inv obtain A k B r where k: "kept = A @ k # B" "i = length A"
        "list_all ?V A" "list_all ?V B" "\<not> ?V k" "cdata = tl_path k @ r"
      by auto
    have fA: "filter (\<lambda>p. \<not> ?V p) A = []" and fB: "filter (\<lambda>p. \<not> ?V p) B = []"
      using k(3,4) by (simp_all add: filter_all_verb)
    show ?thesis
    proof (cases "cdata = []")
      case True
      then have "tl_path k = []" using k(6) by simp
      moreover have "tl_path k = newPathData cdata \<Longrightarrow> ?thesis"
        using st inv Some True k(1,2,5) fA fB by (simp add: combine_group_def)
      ultimately show ?thesis using True by (simp add: newPathData_def)
    next
      case False
      have "kept[i := x] = A @ x # B" for x using k(1,2) by simp
      moreover have "kept ! i = k" using k(1,2) by simp
      ultimately show ?thesis using st inv Some False k(5) fA fB
        by (simp add: combine_group_def)
    qed
  qed
qed

text \<open>
  C9: after \<^verbatim>\<open>combine_nonintersects\<close> a trim group holds at most one line without the
  intersected verb, the merged line. Its sequence of coordinates is that of the lines
  it was merged from, in their order, with every run of equal consecutive coordinates
  collapsed to one: no point is repeated at a join, and no command ends where it
  starts.
\<close>

theorem combine_nonintersects_collapses:
  "length (filter (\<lambda>p. \<not> has_intersectedVerb (tl_id p)) (tg_children (fst (combine_group so trimGroup)))) \<le> 1 \<and>
   map snd (concat (map tl_path (filter (\<lambda>p. \<not> has_intersectedVerb (tl_id p))
       (tg_children (fst (combine_group so trimGroup)))))) =
     remdups_adj (map snd (concat (map tl_path (filter (\<lambda>p. \<not> has_intersectedVerb (tl_id p))
       (tg_children trimGroup))))) \<and>
   distinct_adj (map snd (concat (map tl_path (filter (\<lambda>p. \<not> has_intersectedVerb (tl_id p))
       (tg_children (fst (combine_group so trimGroup)))))))"
proof -
  let ?in = "concat (map tl_path (filter (\<lambda>p. \<not> has_intersectedVerb (tl_id p)) (tg_children trimGroup)))"
  let ?out = "filter (\<lambda>p. \<not> has_intersectedVerb (tl_id p)) (tg_children (fst (combine_group so trimGroup)))"
  from combine_group_merged [of so trimGroup]
  consider "?out = []" "?in = []" | m where "?out = [m]" "tl_path m = newPathData ?in"
    by blast
  then have "length ?out \<le> 1 \<and> map snd (concat (map tl_path ?out)) = remdups_adj (map snd ?in)"
  proof cases
    case 1
    then show ?thesis by (simp only: list.size list.map concat.simps remdups_adj.simps) simp
  next
    case 2
    then show ?thesis by (simp only: list.size list.map concat.simps append_Nil2 newPathData_args) simp
  qed
  then show ?thesis by (simp only: distinct_adj_remdups_adj simp_thms)
qed

subsection \<open>Evaluating the model on concrete inputs\<close>

lemma string_of_nat_digit: "n < 10 \<Longrightarrow> string_of_nat n = [digit_char n]"
  by (subst string_of_nat.simps) simp

lemmas model_defs =
  effect_def scan_def trimming_def initial_document_def scan_path_def split_path_def scan_sub_path_def
  sub_paths_def sub_path_segs_def line_from_segments_def rounded_point_def last_two_def
  is_closed_def make_line_def sub_split_style_def path_style_def set_path_style_def
  visualize_self_def visualize_global_def py_slice_to_def delete_paths_def delete_path_def
  build_trim_line_group_def trim_lines_def trim_line_step_def new_trim_line_def update_last_def
  find_group_def getElementById_def get_unique_id_def split_0_def split_1_def
  remove_duplicates_pass_def deleting_msgs_def combine_nonintersects_pass_def combine_group_def
  combine_step_def newPathData_def has_intersectedVerb_def intersectedVerb_def idPrefix_def
  relCmds_def relCmds_upper_def in_str_def msg_def msgs_def debug_def
  to_arrays_def end_point_def
  test_env_def cut_horizontal_def default_options_def polyline_def
  digit_char_def string_of_nat_digit Let_def upt_conv_Cons sublist_Cons_right

subsection \<open>build\_trim\_line\_group: which pieces are marked\<close>

lemma update_last_alt: "update_last f xs = (if xs = [] then [] else butlast xs @ [f (last xs)])"
  by (cases xs) (simp_all add: update_last_def)

lemma update_last_snoc: "update_last f (xs @ [x]) = xs @ [f x]"
  by (simp add: update_last_alt)

lemma has_intersectedVerb_unique_id:
  "has_intersectedVerb (base @ get_unique_id e n intersectedVerb)"
  unfolding has_intersectedVerb_def get_unique_id_def
  by (rule sublist_appendI)

lemma trim_lines_snoc:
  "trim_lines e so line parent grp idx uid (ps @ [p]) =
   trim_line_step e so line parent grp idx (trim_lines e so line parent grp idx uid ps) p"
  by (simp add: trim_lines_def)

lemma new_trim_line_sel [simp]:
  "tl_id (new_trim_line e so line parent i p) = i"
  "tl_intersected (new_trim_line e so line parent i p) = False"
  by (simp_all add: new_trim_line_def Let_def split: prod.splits)

lemma trim_lines_marking_aux:
  "length (fst (trim_lines e so line parent grp idx uid ps)) = length ps \<and>
   (if 2 \<le> length ps
    then list_all (\<lambda>l. has_intersectedVerb (tl_id l)) (fst (trim_lines e so line parent grp idx uid ps)) \<and>
         list_all tl_intersected (butlast (fst (trim_lines e so line parent grp idx uid ps))) \<and>
         \<not> tl_intersected (last (fst (trim_lines e so line parent grp idx uid ps)))
    else list_all (\<lambda>l. tl_id l = grp @ ''-'' @ string_of_nat idx \<and> \<not> tl_intersected l)
           (fst (trim_lines e so line parent grp idx uid ps)))"
proof (induction ps rule: rev_induct)
  case Nil
  then show ?case by (simp add: trim_lines_def)
next
  case (snoc p ps)
  let ?V = "\<lambda>l. has_intersectedVerb (tl_id l)"
  obtain made u where st: "trim_lines e so line parent grp idx uid ps = (made, u)"
    by (cases "trim_lines e so line parent grp idx uid ps") auto
  from snoc st have len: "length made = length ps" by simp
  show ?case
  proof (cases ps rule: rev_cases)
    case Nil
    with len have "made = []" by simp
    then show ?thesis using Nil
      by (simp add: trim_lines_def trim_line_step_def Let_def)
  next
    case (snoc qs q)
    with len obtain ms m where made: "made = ms @ [m]"
      by (cases made rule: rev_cases) auto
    let ?base = "grp @ ''-'' @ string_of_nat idx"
    let ?m' = "m\<lparr>tl_id := ?base @ get_unique_id e (Suc u) intersectedVerb, tl_intersected := True\<rparr>"
    let ?n = "new_trim_line e so line parent (?base @ get_unique_id e u intersectedVerb) p"
    have res: "fst (trim_lines e so line parent grp idx uid (ps @ [p])) = ms @ [?m', ?n]"
      using st made by (simp add: trim_lines_snoc trim_line_step_def Let_def update_last_snoc)
    have ms: "list_all ?V ms \<and> list_all tl_intersected ms"
    proof (cases "2 \<le> length ps")
      case True
      with snoc.IH st made show ?thesis by simp
    next
      case False
      with len made have "ms = []" by (cases ms) auto
      then show ?thesis by simp
    qed
    have "has_intersectedVerb (?base @ get_unique_id e k intersectedVerb)" for k
      by (rule has_intersectedVerb_unique_id)
    then have "?V ?m'" "?V ?n"
      by simp_all
    moreover have "2 \<le> length (ps @ [p])" using snoc by simp
    moreover have "length (ms @ [?m', ?n]) = length (ps @ [p])" using len made by simp
    ultimately show ?thesis unfolding res using ms
      by (simp add: butlast_append)
  qed
qed

text \<open>
  C7, as the code has it. A sub split line cut into at least two pieces gives every
  piece an id that contains the intersected verb (the piece before and the piece after
  every cut), and sets the attribute \<^verbatim>\<open>intersected\<close> on every piece but the last one,
  that is on the pieces that end at a cut. A sub split line that is not cut gives one
  piece with the plain id of group and index and without the attribute.
\<close>

theorem trim_lines_marking:
  "length (fst (trim_lines e so line trimGroupParentId trimGroupId subSplitIndex uid trimLines)) =
     length trimLines \<and>
   (if 2 \<le> length trimLines
    then list_all (\<lambda>l. has_intersectedVerb (tl_id l))
           (fst (trim_lines e so line trimGroupParentId trimGroupId subSplitIndex uid trimLines)) \<and>
         list_all tl_intersected
           (butlast (fst (trim_lines e so line trimGroupParentId trimGroupId subSplitIndex uid trimLines))) \<and>
         \<not> tl_intersected
           (last (fst (trim_lines e so line trimGroupParentId trimGroupId subSplitIndex uid trimLines)))
    else list_all (\<lambda>l. tl_id l = trimGroupId @ ''-'' @ string_of_nat subSplitIndex \<and> \<not> tl_intersected l)
           (fst (trim_lines e so line trimGroupParentId trimGroupId subSplitIndex uid trimLines)))"
  by (rule trim_lines_marking_aux)

text \<open>
  C7, as the specification states it, fails in a run of \<^verbatim>\<open>effect\<close>. The horizontal path
  \<open>p\<close> is cut at (5,0), where the path \<open>q-intersected-1\<close> starts; the latter is not
  cut. The piece of \<open>p\<close> that starts at the cut has the verb in its id but not the
  attribute \<^verbatim>\<open>intersected\<close>, and the only piece of the other path, which touches no
  cut of its own, has the verb in its id, because the id of its path has.
\<close>

theorem marking_counterexample:
  "map_sum id marks
     (effect (test_env (\<lambda>segs validate. if length segs = 2 then Inr [(5, 0)] else Inr []))
        (default_options\<lparr>draw_trimmed := True, trimming_path_types := ''both'',
                         remove_duplicates := False, combine_nonintersects := False,
                         keep_original_after_trim := True\<rparr>)
        [polyline ''p'' [(0, 0), (10, 0)], polyline ''q-intersected-1'' [(5, 0), (5, 5)]]) =
   Inr [(True, True), (True, False), (True, False)]"
  by (simp add: model_defs marks_def)

subsection \<open>Closed paths\<close>

text \<open>
  C6, as the code has it. The test is made once for a path element, on
  \<^verbatim>\<open>raw = path.to_arrays()\<close>, and reads the first and the last command of the whole
  path: the path is closed exactly when the last command is \<^verbatim>\<open>Z\<close>, or is \<^verbatim>\<open>L\<close> with
  the arguments of the first command, or is \<^verbatim>\<open>C\<close> whose last two arguments are the
  arguments of the first command. Coordinates are compared with \<^verbatim>\<open>==\<close>: no tolerance
  enters. The test raises \<^verbatim>\<open>IndexError\<close> for a path without commands and for a last
  command \<^verbatim>\<open>C\<close> with fewer than two arguments; in every other case the path is open.
\<close>

theorem is_closed_iff:
  "(is_closed raw = Inr True) =
     (raw \<noteq> [] \<and>
      (fst (last raw) = CHR ''Z'' \<or>
       fst (last raw) = CHR ''L'' \<and> snd (last raw) = snd (hd raw) \<or>
       fst (last raw) = CHR ''C'' \<and> 2 \<le> length (snd (last raw)) \<and>
       snd (hd raw) = [snd (last raw) ! (length (snd (last raw)) - 2),
                       snd (last raw) ! (length (snd (last raw)) - 1)])) \<and>
   (is_closed raw = Inr False) =
     (raw \<noteq> [] \<and> fst (last raw) \<noteq> CHR ''Z'' \<and>
      (fst (last raw) = CHR ''L'' \<and> snd (last raw) \<noteq> snd (hd raw) \<or>
       fst (last raw) = CHR ''C'' \<and> 2 \<le> length (snd (last raw)) \<and>
       snd (hd raw) \<noteq> [snd (last raw) ! (length (snd (last raw)) - 2),
                       snd (last raw) ! (length (snd (last raw)) - 1)] \<or>
       fst (last raw) \<noteq> CHR ''L'' \<and> fst (last raw) \<noteq> CHR ''C'')) \<and>
   (is_closed raw = Inl IndexError) =
     (raw = [] \<or> fst (last raw) = CHR ''C'' \<and> length (snd (last raw)) < 2)"
  by (auto simp: is_closed_def last_two_def)

text \<open>
  C6, as the specification states it, fails: a path whose last point is within
  0.00001 of its first point, far inside every tolerance of the options (three
  decimals, flatness 0.1, snap tolerance 0.1), is not closed.
\<close>

theorem is_closed_tolerance_counterexample:
  "is_closed [(CHR ''M'', [0, 0]), (CHR ''L'', [10, 0]), (CHR ''L'', [10, 10]),
              (CHR ''L'', [1 / 100000, 0])] = Inr False"
  by (simp add: is_closed_def)

text \<open>
  The test reads absolute commands. With the \<^verbatim>\<open>to_arrays\<close> of the concrete runs, a
  relative path that ends with \<^verbatim>\<open>z\<close>, or whose last relative line leads back to the
  first point, is closed; the same commands with their relative letters, which the
  test never gets, would be open.
\<close>

lemma relative_path_closed:
  "is_closed (to_arrays [(CHR ''m'', [5, 5]), (CHR ''l'', [10, 0]), (CHR ''l'', [0, 10]), (CHR ''z'', [])]) =
     Inr True \<and>
   is_closed (to_arrays [(CHR ''m'', [5, 5]), (CHR ''l'', [10, 0]), (CHR ''l'', [- 10, 0])]) = Inr True \<and>
   is_closed [(CHR ''m'', [5, 5]), (CHR ''l'', [10, 0]), (CHR ''l'', [0, 10]), (CHR ''z'', [])] = Inr False"
  by (simp add: to_arrays_def end_point_def last_two_def is_closed_def Let_def)

subsection \<open>The paths of the document during the scan\<close>

lemma doc_paths_debug [simp]: "doc_paths (debug so m doc) = doc_paths doc"
  by (simp add: debug_def msg_def)

lemma doc_paths_msg [simp]: "doc_paths (msg m doc) = doc_paths doc"
  by (simp add: msg_def)

lemma visualize_self_paths:
  "visualize_self pe pts doc = Inr doc' \<Longrightarrow> doc_paths doc' = doc_paths doc"
  by (auto simp: visualize_self_def split: if_splits)

lemma scan_sub_path_paths:
  assumes "scan_sub_path e so pe fl st sp = Inr st'" and "\<not> remove_self_intersecting so"
  shows "doc_paths (ss_doc st') = doc_paths (ss_doc st)"
proof -
  let ?segs = "sub_path_segs e so (isBezier fl) sp"
  let ?att = "getElementById (ss_doc st) (pe_id pe) \<noteq> None"
  from assms(1) obtain made where made:
    "lines_loop e so pe ?att fl ?segs [0 ..< length ?segs - 1] = Inr made"
    by (auto simp: scan_sub_path_def Let_def split: sum.splits)
  from assms(1) made obtain pts where pts: "env_isect_segments e (map snd made) True = Inr pts"
    by (auto simp: scan_sub_path_def Let_def split: sum.splits)
  show ?thesis
  proof (cases "length pts > 0")
    case False
    with assms(1) made pts show ?thesis
      by (auto simp: scan_sub_path_def Let_def)
  next
    case True
    show ?thesis
    proof (cases "visualize_self_intersections so")
      case False
      with assms True made pts show ?thesis
        by (auto simp: scan_sub_path_def Let_def)
    next
      case vis: True
      let ?d1 = "debug so (Debug ''{} in {} intersects itself with {} intersections!''
                   [S (if made = [] then [] else sl_id (fst (last made))), S (pe_id pe), N (length pts)])
                   (ss_doc st)"
      from assms True made pts vis obtain d2 where d2: "visualize_self pe pts ?d1 = Inr d2"
        and st': "ss_doc st' = d2"
        by (auto simp: scan_sub_path_def Let_def split: sum.splits)
      from visualize_self_paths [OF d2] st' show ?thesis by simp
    qed
  qed
qed

lemma scan_sub_paths_paths:
  "scan_sub_paths e so pe fl st sps = Inr st' \<Longrightarrow> \<not> remove_self_intersecting so \<Longrightarrow>
   doc_paths (ss_doc st') = doc_paths (ss_doc st)"
proof (induction sps arbitrary: st)
  case Nil
  then show ?case by simp
next
  case (Cons sp sps)
  from Cons.prems(1) obtain st1 where s1: "scan_sub_path e so pe fl st sp = Inr st1"
    and s2: "scan_sub_paths e so pe fl st1 sps = Inr st'"
    by (auto split: sum.splits)
  from Cons.IH [OF s2 Cons.prems(2)] scan_sub_path_paths [OF s1 Cons.prems(2)]
  show ?case by simp
qed

lemma path_style_same:
  assumes "\<not> removefillsetstroke so" "\<not> highlight_relative so" "\<not> highlight_absolute so"
    "\<not> highlight_mixed so" "\<not> highlight_polylines so" "\<not> highlight_beziers so"
    "\<not> highlight_opened so" "\<not> highlight_closed so" "\<not> highlight_self_intersecting so"
  shows "path_style e so fl si s = s"
  using assms by (simp add: path_style_def Let_def)

lemma set_path_style_same: "(\<And>s. f s = s) \<Longrightarrow> set_path_style i f doc = doc"
  by (simp add: set_path_style_def map_idI)

lemma split_path_paths:
  assumes "split_path e so doc1 arr pe raw fl = Inr (doc', arr')" and "scan_keeps_paths so"
  shows "doc_paths doc' = doc_paths doc1"
proof -
  from assms(2) have off: "\<not> remove_self_intersecting so"
    and same: "\<And>fl si s. path_style e so fl si s = s"
    by (simp_all add: scan_keeps_paths_def path_style_same)
  let ?st0 = "\<lparr>ss_doc = doc1, ss_array = arr,
                ss_group = (if draw_subsplit so
                            then Some \<lparr>sg_id = idPrefix @ ''-'' @ pe_id pe, sg_lines = [], sg_attached = True\<rparr>
                            else None),
                ss_isSelfIntersecting = False\<rparr>"
  from assms(1) obtain st1 where st1: "scan_sub_paths e so pe fl ?st0 (sub_paths raw) = Inr st1"
    and res: "doc' = (set_path_style (pe_id pe) (path_style e so fl (ss_isSelfIntersecting st1)) (ss_doc st1))
                \<lparr>doc_subsplit_groups := doc_subsplit_groups (ss_doc st1) @
                    (case ss_group st1 of None \<Rightarrow> [] | Some g \<Rightarrow> [g])\<rparr>"
    by (auto simp: split_path_def Let_def split: sum.splits)
  from scan_sub_paths_paths [OF st1 off] have "doc_paths (ss_doc st1) = doc_paths doc1" by simp
  moreover have "set_path_style (pe_id pe) (path_style e so fl (ss_isSelfIntersecting st1)) (ss_doc st1) = ss_doc st1"
    by (rule set_path_style_same) (rule same)
  ultimately show ?thesis using res by simp
qed

lemma scan_path_paths:
  assumes "scan_path e so (doc, arr) pe = Inr (doc', arr')" and "scan_keeps_paths so"
  shows "doc_paths doc' = doc_paths doc"
proof -
  from assms(2) have off: "\<not> remove_relative so" "\<not> remove_absolute so" "\<not> remove_mixed so"
    "\<not> remove_polylines so" "\<not> remove_beziers so" "\<not> remove_opened so" "\<not> remove_closed so"
    by (simp_all add: scan_keeps_paths_def)
  let ?p = "pe_path pe"
  let ?doc1 = "debug so (Debug ''sub path in {} is bezier: {}''
                 [S (pe_id pe), B (in_str (CHR ''c'') ?p \<or> in_str (CHR ''C'') ?p)]) doc"
  from assms(1) off obtain raw fl where "split_path e so ?doc1 arr pe raw fl = Inr (doc', arr')"
    by (simp add: scan_path_def Let_def split: sum.splits)
  from split_path_paths [OF this assms(2)] show ?thesis by simp
qed

lemma scan_paths_paths:
  "scan_paths e so (doc, arr) pes = Inr (doc', arr') \<Longrightarrow> scan_keeps_paths so \<Longrightarrow>
   doc_paths doc' = doc_paths doc"
proof (induction pes arbitrary: doc arr)
  case Nil
  then show ?case by simp
next
  case (Cons pe pes)
  from Cons.prems(1) obtain d1 a1 where s1: "scan_path e so (doc, arr) pe = Inr (d1, a1)"
    and s2: "scan_paths e so (d1, a1) pes = Inr (doc', arr')"
    by (auto split: sum.splits)
  from Cons.IH [OF s2 Cons.prems(2)] scan_path_paths [OF s1 Cons.prems(2)]
  show ?case by simp
qed

lemma scan_paths_kept:
  assumes "scan e so pathElements = Inr (doc, arr)" and "scan_keeps_paths so"
  shows "doc_paths doc = pathElements"
proof -
  let ?d0 = "initial_document pathElements"
  let ?d1 = "if break_apart so \<and> show_debug so
             then msg (Msg (''Warning: '' @ apostrophe @ ''Break apart input'' @ apostrophe @
                            '' setting is enabled. Cannot check accordingly for relative, absolute or mixed paths for breaked elements (they are always absolute)!'')) ?d0
             else ?d0"
  from assms(1) obtain d2 where d2: "scan_paths e so (?d1, []) pathElements = Inr (d2, arr)"
    and doc: "doc = debug so (Debug ''sub split line count: {}'' [N (length arr)]) d2"
    by (auto simp: scan_def Let_def split: sum.splits)
  from scan_paths_paths [OF d2 assms(2)] have "doc_paths d2 = doc_paths ?d1" .
  also have "\<dots> = pathElements" by (simp add: initial_document_def)
  finally show ?thesis using doc by simp
qed

lemma error_text_names_tunables:
  "sublist ''decimals'' error_text \<and> sublist ''flatness'' error_text"
proof -
  have eq1: "error_text = (''Error calculating global intersections.'' @ newline @
     ''See https://github.com/ideasman42/isect_segments-bentley_ottmann.'' @ newline @ newline @
     ''You can try to fix this by:'' @ newline @
     ''- reduce or raise the '' @ apostrophe) @ ''decimals'' @ (apostrophe @
     '' setting (default is 3 but try to set to 6 for example)'' @ newline @
     ''- reduce or raise the '' @ apostrophe @ ''flatness'' @ apostrophe @
     '' setting (if quantization option is used at all; default is 0.100).'')"
    by (simp add: error_text_def)
  have d: "sublist ''decimals'' error_text" by (subst eq1) (rule sublist_appendI)
  have eq2: "error_text = (''Error calculating global intersections.'' @ newline @
     ''See https://github.com/ideasman42/isect_segments-bentley_ottmann.'' @ newline @ newline @
     ''You can try to fix this by:'' @ newline @
     ''- reduce or raise the '' @ apostrophe @ ''decimals'' @ apostrophe @
     '' setting (default is 3 but try to set to 6 for example)'' @ newline @
     ''- reduce or raise the '' @ apostrophe) @ ''flatness'' @ (apostrophe @
     '' setting (if quantization option is used at all; default is 0.100).'')"
    by (simp add: error_text_def)
  have "sublist ''flatness'' error_text" by (subst eq2) (rule sublist_appendI)
  with d show ?thesis by simp
qed

text \<open>
  C10, as the code has it: with \<^verbatim>\<open>draw_trimmed\<close> set and \<^verbatim>\<open>keep_original_after_trim\<close>
  off, a sweep over all sub split lines that finds no point leaves the document as
  the scan left it, but for one debug line: no trim group is built and the trimming
  deletes no path. When, besides, the options of the scan delete and restyle nothing,
  the paths of the document are the paths the method started from (the list of
  \<^verbatim>\<open>get_path_elements()\<close>: with \<^verbatim>\<open>break_apart\<close>, the pieces that have replaced the
  paths of the user).
\<close>

theorem originals_kept_without_intersections:
  assumes "draw_trimmed so" and "\<not> keep_original_after_trim so"
    and "scan e so pathElements = Inr (doc, subSplitLineArray)"
    and "env_isect_segments e (map (\<lambda>l. (sl_p1 l, sl_p2 l)) subSplitLineArray) True = Inr []"
  shows "effect e so pathElements =
           Inr (debug so (Debug ''global intersection points count: {}'' [N 0]) doc) \<and>
         doc_paths (debug so (Debug ''global intersection points count: {}'' [N 0]) doc) = doc_paths doc \<and>
         (scan_keeps_paths so \<longrightarrow> doc_paths doc = pathElements)"
  using assms scan_paths_kept [of e so pathElements doc subSplitLineArray]
  by (simp add: effect_def trimming_def)

text \<open>
  C3 on the guarded call: the sweep over all sub split lines (the global pass, line
  726, run when \<^verbatim>\<open>draw_trimmed\<close> is set) is inside \<^verbatim>\<open>try ... except AssertionError\<close>.
  An \<^verbatim>\<open>AssertionError\<close> it raises does not leave \<^verbatim>\<open>effect\<close>: the method prints one
  message, which names the settings \<^verbatim>\<open>decimals\<close> and \<^verbatim>\<open>flatness\<close>, and returns with
  the document as the scan left it; it builds nothing and does not run the sweep
  again.
\<close>

theorem global_assertion_error_reported:
  assumes "draw_trimmed so"
    and "scan e so pathElements = Inr (doc, subSplitLineArray)"
    and "env_isect_segments e (map (\<lambda>l. (sl_p1 l, sl_p2 l)) subSplitLineArray) True = Inl AssertionError"
  shows "effect e so pathElements = Inr (msg (Msg error_text) doc) \<and>
         sublist ''decimals'' error_text \<and> sublist ''flatness'' error_text"
  using assms error_text_names_tunables
  by (simp add: effect_def trimming_def)

text \<open>
  C3 fails on the code. The same sweep line is called a second time, for the lines of
  one sub path (the self intersection pass, line 653), outside every \<^verbatim>\<open>try\<close>: an
  \<^verbatim>\<open>AssertionError\<close> it raises there leaves \<^verbatim>\<open>effect\<close>, with or without
  \<^verbatim>\<open>draw_trimmed\<close>. And the handler of the global pass catches \<^verbatim>\<open>AssertionError\<close>
  only: a \<^verbatim>\<open>KeyError\<close>, the failure of the sweep line that the header of the file
  quotes, leaves \<^verbatim>\<open>effect\<close> from both calls.
\<close>

theorem sweep_failure_escapes_counterexample:
  "effect (test_env (\<lambda>segs validate. Inl AssertionError))
     (default_options\<lparr>draw_trimmed := True\<rparr>)
     [polyline ''p'' [(0, 0), (10, 0)]] = Inl AssertionError \<and>
   effect (test_env (\<lambda>segs validate. Inl AssertionError)) default_options
     [polyline ''p'' [(0, 0), (10, 0)]] = Inl AssertionError \<and>
   effect (test_env (\<lambda>segs validate. if length segs = 2 then Inl KeyError else Inr []))
     (default_options\<lparr>draw_trimmed := True\<rparr>)
     [polyline ''p'' [(0, 0), (10, 0)], polyline ''q'' [(0, 5), (10, 5)]] = Inl KeyError \<and>
   effect (test_env (\<lambda>segs validate. Inl KeyError)) default_options
     [polyline ''p'' [(0, 0), (10, 0)]] = Inl KeyError"
  by (simp add: model_defs)

text \<open>
  A run to which C10 applies: two parallel paths, a sweep line that finds nothing, the
  default options with \<^verbatim>\<open>draw_trimmed\<close> set. Both paths stay.
\<close>

theorem originals_kept_witness:
  "draw_trimmed (default_options\<lparr>draw_trimmed := True\<rparr>) \<and>
   \<not> keep_original_after_trim (default_options\<lparr>draw_trimmed := True\<rparr>) \<and>
   scan_keeps_paths (default_options\<lparr>draw_trimmed := True\<rparr>) \<and>
   (\<exists>d. effect (test_env (\<lambda>segs validate. Inr [])) (default_options\<lparr>draw_trimmed := True\<rparr>)
          [polyline ''p'' [(0, 0), (10, 0)], polyline ''q'' [(0, 5), (10, 5)]] = Inr d \<and>
        doc_paths d = [polyline ''p'' [(0, 0), (10, 0)], polyline ''q'' [(0, 5), (10, 5)]])"
proof -
  let ?e = "test_env (\<lambda>segs validate. Inr [])"
  let ?so = "default_options\<lparr>draw_trimmed := True\<rparr>"
  let ?ps = "[polyline ''p'' [(0, 0), (10, 0)], polyline ''q'' [(0, 5), (10, 5)]]"
  have h1: "draw_trimmed ?so" and h2: "\<not> keep_original_after_trim ?so"
    and h3: "scan_keeps_paths ?so"
    by (simp_all add: default_options_def scan_keeps_paths_def)
  have "\<exists>doc arr. scan ?e ?so ?ps = Inr (doc, arr)"
    by (simp add: model_defs)
  then obtain doc arr where sc: "scan ?e ?so ?ps = Inr (doc, arr)" by blast
  have isec: "env_isect_segments ?e (map (\<lambda>l. (sl_p1 l, sl_p2 l)) arr) True = Inr []"
    by (simp add: test_env_def)
  from originals_kept_without_intersections [OF h1 h2 sc isec] h3
  have "effect ?e ?so ?ps = Inr (debug ?so (Debug ''global intersection points count: {}'' [N 0]) doc) \<and>
        doc_paths (debug ?so (Debug ''global intersection points count: {}'' [N 0]) doc) = ?ps"
    by simp
  then have "\<exists>d. effect ?e ?so ?ps = Inr d \<and> doc_paths d = ?ps" by blast
  with h1 h2 h3 show ?thesis by blast
qed

text \<open>
  C10, as the specification states it, fails: the same two paths and the same sweep
  line, with \<^verbatim>\<open>remove_polylines\<close> set besides. No intersection point is found, and
  both paths are deleted, by the scan (lines 544 to 546).
\<close>

theorem originals_removed_by_scan_counterexample:
  "draw_trimmed (default_options\<lparr>draw_trimmed := True, remove_polylines := True\<rparr>) \<and>
   \<not> keep_original_after_trim (default_options\<lparr>draw_trimmed := True, remove_polylines := True\<rparr>) \<and>
   map_sum id doc_paths
     (effect (test_env (\<lambda>segs validate. Inr []))
        (default_options\<lparr>draw_trimmed := True, remove_polylines := True\<rparr>)
        [polyline ''p'' [(0, 0), (10, 0)], polyline ''q'' [(0, 5), (10, 5)]]) = Inr []"
  by (simp add: model_defs)

text \<open>
  A run with a failure of the guarded call: the sweep line answers the two self
  intersection passes and raises \<^verbatim>\<open>AssertionError\<close> in the global pass, which gets
  two segments. The method returns, and its last message is the error text.
\<close>

theorem global_assertion_error_witness:
  "draw_trimmed (default_options\<lparr>draw_trimmed := True\<rparr>) \<and>
   (\<exists>d. effect (test_env (\<lambda>segs validate. if length segs = 2 then Inl AssertionError else Inr []))
          (default_options\<lparr>draw_trimmed := True\<rparr>)
          [polyline ''p'' [(0, 0), (10, 0)], polyline ''q'' [(0, 5), (10, 5)]] = Inr d \<and>
        last (doc_msgs d) = Msg error_text)"
proof -
  let ?e = "test_env (\<lambda>segs validate. if length segs = 2 then Inl AssertionError else Inr [])"
  let ?so = "default_options\<lparr>draw_trimmed := True\<rparr>"
  let ?ps = "[polyline ''p'' [(0, 0), (10, 0)], polyline ''q'' [(0, 5), (10, 5)]]"
  have h1: "draw_trimmed ?so" by simp
  have "\<exists>doc arr. scan ?e ?so ?ps = Inr (doc, arr) \<and> length arr = 2"
    by (simp add: model_defs)
  then obtain doc arr where sc: "scan ?e ?so ?ps = Inr (doc, arr)" and len: "length arr = 2"
    by blast
  have isec: "env_isect_segments ?e (map (\<lambda>l. (sl_p1 l, sl_p2 l)) arr) True = Inl AssertionError"
    using len by (simp add: test_env_def)
  from global_assertion_error_reported [OF h1 sc isec]
  have "effect ?e ?so ?ps = Inr (msg (Msg error_text) doc) \<and>
        last (doc_msgs (msg (Msg error_text) doc)) = Msg error_text"
    by (simp add: msg_def)
  then have "\<exists>d. effect ?e ?so ?ps = Inr d \<and> last (doc_msgs d) = Msg error_text" by blast
  with h1 show ?thesis by blast
qed

subsection \<open>What a run depends on\<close>

text \<open>
  A run with another sweep line \<open>i\<close>, another flattener \<open>c\<close> and another value
  \<open>f\<close> of \<^verbatim>\<open>flatness\<close> is the same run, provided the sweep lines agree where
  \<^verbatim>\<open>validate\<close> is set and the segments of every sub path come out the same.
\<close>

lemma options_fields:
  assumes "so' = so\<lparr>flatness := f\<rparr>"
  shows "show_debug so' = show_debug so" "break_apart so' = break_apart so"
    "trimming_path_types so' = trimming_path_types so" "flattenbezier so' = flattenbezier so"
    "decimals so' = decimals so" "snap_tolerance so' = snap_tolerance so"
    "remove_relative so' = remove_relative so" "remove_absolute so' = remove_absolute so"
    "remove_mixed so' = remove_mixed so" "remove_polylines so' = remove_polylines so"
    "remove_beziers so' = remove_beziers so" "remove_opened so' = remove_opened so"
    "remove_closed so' = remove_closed so" "remove_self_intersecting so' = remove_self_intersecting so"
    "highlight_relative so' = highlight_relative so" "highlight_absolute so' = highlight_absolute so"
    "highlight_mixed so' = highlight_mixed so" "highlight_polylines so' = highlight_polylines so"
    "highlight_beziers so' = highlight_beziers so" "highlight_opened so' = highlight_opened so"
    "highlight_closed so' = highlight_closed so"
    "highlight_self_intersecting so' = highlight_self_intersecting so"
    "draw_subsplit so' = draw_subsplit so"
    "visualize_self_intersections so' = visualize_self_intersections so"
    "visualize_global_intersections so' = visualize_global_intersections so"
    "draw_trimmed so' = draw_trimmed so" "combine_nonintersects so' = combine_nonintersects so"
    "remove_duplicates so' = remove_duplicates so" "reverse_removal_order so' = reverse_removal_order so"
    "keep_original_after_trim so' = keep_original_after_trim so" "strokewidth so' = strokewidth so"
    "removefillsetstroke so' = removefillsetstroke so" "bezier_trimming so' = bezier_trimming so"
    "apply_style_to_subsplits so' = apply_style_to_subsplits so"
    "apply_style_to_trimmed so' = apply_style_to_trimmed so"
    "color_subsplit so' = color_subsplit so" "color_relative so' = color_relative so"
    "color_absolute so' = color_absolute so" "color_mixed so' = color_mixed so"
    "color_polyline so' = color_polyline so" "color_bezier so' = color_bezier so"
    "color_opened so' = color_opened so" "color_closed so' = color_closed so"
    "color_self_intersecting_paths so' = color_self_intersecting_paths so"
    "color_trimmed so' = color_trimmed so" "color_combined so' = color_combined so"
    "color_nonintersected so' = color_nonintersected so"
  using assms by simp_all

lemma env_fields:
  assumes "e' = e\<lparr>env_isect_segments := i, env_cspsubdiv := c\<rparr>"
  shows "env_round e' = env_round e" "env_to_arrays e' = env_to_arrays e"
    "env_to_segments e' = env_to_segments e"
    "env_parent_inverse e' = env_parent_inverse e" "env_self_inverse e' = env_self_inverse e"
    "env_snap_split e' = env_snap_split e" "env_random e' = env_random e"
    "env_csplength e' = env_csplength e" "env_csp_of_element e' = env_csp_of_element e"
    "env_adjust_style e' = env_adjust_style e"
  using assms by simp_all

lemma lines_loop_cong:
  assumes e': "e' = e\<lparr>env_isect_segments := i, env_cspsubdiv := c\<rparr>" and so': "so' = so\<lparr>flatness := f\<rparr>"
  shows "lines_loop e' so' pe att fl segs is = lines_loop e so pe att fl segs is"
proof (induction "is")
  case Nil
  show ?case by simp
next
  case (Cons j js)
  show ?case
    unfolding lines_loop.simps Cons.IH line_from_segments_def rounded_point_def make_line_def
      sub_split_style_def options_fields [OF so'] env_fields [OF e']
    by (rule refl)
qed

lemma scan_sub_path_cong:
  assumes e': "e' = e\<lparr>env_isect_segments := i, env_cspsubdiv := c\<rparr>" and so': "so' = so\<lparr>flatness := f\<rparr>"
    and i: "\<And>segs. i segs True = env_isect_segments e segs True"
    and segs: "\<And>b p. sub_path_segs e' so' b p = sub_path_segs e so b p"
  shows "scan_sub_path e' so' pe fl st sp = scan_sub_path e so pe fl st sp"
proof -
  have isect: "env_isect_segments e' sg True = env_isect_segments e sg True" for sg
    using e' i by simp
  show ?thesis
    unfolding scan_sub_path_def segs lines_loop_cong [OF e' so'] isect debug_def
      options_fields [OF so']
    by (rule refl)
qed

lemma scan_sub_paths_cong:
  assumes e': "e' = e\<lparr>env_isect_segments := i, env_cspsubdiv := c\<rparr>" and so': "so' = so\<lparr>flatness := f\<rparr>"
    and i: "\<And>segs. i segs True = env_isect_segments e segs True"
    and segs: "\<And>b p. sub_path_segs e' so' b p = sub_path_segs e so b p"
  shows "scan_sub_paths e' so' pe fl st sps = scan_sub_paths e so pe fl st sps"
proof (induction sps arbitrary: st)
  case Nil
  show ?case by simp
next
  case (Cons sp sps)
  show ?case
    unfolding scan_sub_paths.simps scan_sub_path_cong [OF e' so' i segs] Cons.IH
    by (rule refl)
qed

lemma split_path_cong:
  assumes e': "e' = e\<lparr>env_isect_segments := i, env_cspsubdiv := c\<rparr>" and so': "so' = so\<lparr>flatness := f\<rparr>"
    and i: "\<And>segs. i segs True = env_isect_segments e segs True"
    and segs: "\<And>b p. sub_path_segs e' so' b p = sub_path_segs e so b p"
  shows "split_path e' so' doc arr pe raw fl = split_path e so doc arr pe raw fl"
  unfolding split_path_def scan_sub_paths_cong [OF e' so' i segs] path_style_def
    options_fields [OF so'] env_fields [OF e']
  by (rule refl)

lemma scan_path_cong:
  assumes e': "e' = e\<lparr>env_isect_segments := i, env_cspsubdiv := c\<rparr>" and so': "so' = so\<lparr>flatness := f\<rparr>"
    and i: "\<And>segs. i segs True = env_isect_segments e segs True"
    and segs: "\<And>b p. sub_path_segs e' so' b p = sub_path_segs e so b p"
  shows "scan_path e' so' st pe = scan_path e so st pe"
  unfolding scan_path_def split_path_cong [OF e' so' i segs] debug_def
    options_fields [OF so'] env_fields [OF e']
  by (rule refl)

lemma scan_paths_cong:
  assumes e': "e' = e\<lparr>env_isect_segments := i, env_cspsubdiv := c\<rparr>" and so': "so' = so\<lparr>flatness := f\<rparr>"
    and i: "\<And>segs. i segs True = env_isect_segments e segs True"
    and segs: "\<And>b p. sub_path_segs e' so' b p = sub_path_segs e so b p"
  shows "scan_paths e' so' st pes = scan_paths e so st pes"
proof (induction pes arbitrary: st)
  case Nil
  show ?case by simp
next
  case (Cons pe pes)
  show ?case
    unfolding scan_paths.simps scan_path_cong [OF e' so' i segs] Cons.IH
    by (rule refl)
qed

lemma scan_cong:
  assumes e': "e' = e\<lparr>env_isect_segments := i, env_cspsubdiv := c\<rparr>" and so': "so' = so\<lparr>flatness := f\<rparr>"
    and i: "\<And>segs. i segs True = env_isect_segments e segs True"
    and segs: "\<And>b p. sub_path_segs e' so' b p = sub_path_segs e so b p"
  shows "scan e' so' pes = scan e so pes"
  unfolding scan_def scan_paths_cong [OF e' so' i segs] debug_def options_fields [OF so']
  by (rule refl)

lemma build_trim_line_group_cong:
  assumes e': "e' = e\<lparr>env_isect_segments := i, env_cspsubdiv := c\<rparr>" and so': "so' = so\<lparr>flatness := f\<rparr>"
  shows "build_trim_line_group e' so' doc arr k pts = build_trim_line_group e so doc arr k pts"
  unfolding build_trim_line_group_def trim_lines_def trim_line_step_def new_trim_line_def
    get_unique_id_def options_fields [OF so'] env_fields [OF e']
  by (rule refl)

lemma build_loop_cong:
  assumes e': "e' = e\<lparr>env_isect_segments := i, env_cspsubdiv := c\<rparr>" and so': "so' = so\<lparr>flatness := f\<rparr>"
  shows "build_loop e' so' arr pts doc ks = build_loop e so arr pts doc ks"
proof (induction ks arbitrary: doc)
  case Nil
  show ?case by simp
next
  case (Cons k ks)
  show ?case
    unfolding build_loop.simps build_trim_line_group_cong [OF e' so'] Cons.IH
    by (rule refl)
qed

lemma chain_loop_cong:
  assumes e': "e' = e\<lparr>env_isect_segments := i, env_cspsubdiv := c\<rparr>"
  shows "chain_loop e' tot ch ls = chain_loop e tot ch ls"
proof (induction ls arbitrary: ch)
  case Nil
  show ?case by simp
next
  case (Cons l ls)
  show ?case
    unfolding chain_loop.simps Cons.IH env_fields [OF e']
    by (rule refl)
qed

lemma trim_bezier_cong:
  assumes e': "e' = e\<lparr>env_isect_segments := i, env_cspsubdiv := c\<rparr>" and so': "so' = so\<lparr>flatness := f\<rparr>"
  shows "trim_bezier e' so' doc gs = trim_bezier e so doc gs"
proof (induction gs)
  case Nil
  show ?case by simp
next
  case (Cons g gs)
  show ?case
    unfolding trim_bezier.simps trim_bezier_group_def chain_loop_cong [OF e'] Cons.IH
      env_fields [OF e']
    by (rule refl)
qed

lemma passes_cong:
  assumes so': "so' = so\<lparr>flatness := f\<rparr>"
  shows "remove_duplicates_pass so' gs = remove_duplicates_pass so gs"
    and "combine_nonintersects_pass so' gs = combine_nonintersects_pass so gs"
  unfolding remove_duplicates_pass_def deleting_msgs_def combine_nonintersects_pass_def
    combine_group_def options_fields [OF so']
  by (rule refl)+

lemma trimming_cong:
  assumes e': "e' = e\<lparr>env_isect_segments := i, env_cspsubdiv := c\<rparr>" and so': "so' = so\<lparr>flatness := f\<rparr>"
    and i: "\<And>segs. i segs True = env_isect_segments e segs True"
  shows "trimming e' so' pes doc arr = trimming e so pes doc arr"
proof -
  have isect: "env_isect_segments e' sg True = env_isect_segments e sg True" for sg
    using e' i by simp
  show ?thesis
    unfolding trimming_def isect build_loop_cong [OF e' so'] trim_bezier_cong [OF e' so']
      passes_cong [OF so'] debug_def options_fields [OF so']
    by (rule refl)
qed

lemma effect_cong:
  assumes e': "e' = e\<lparr>env_isect_segments := i, env_cspsubdiv := c\<rparr>" and so': "so' = so\<lparr>flatness := f\<rparr>"
    and i: "\<And>segs. i segs True = env_isect_segments e segs True"
    and segs: "\<And>b p. sub_path_segs e' so' b p = sub_path_segs e so b p"
  shows "effect e' so' pes = effect e so pes"
  unfolding effect_def scan_cong [OF e' so' i segs] trimming_cong [OF e' so' i]
    options_fields [OF so']
  by (rule refl)

lemma same_env: "e\<lparr>env_isect_segments := env_isect_segments e, env_cspsubdiv := env_cspsubdiv e\<rparr> = e"
  by simp

lemma same_options: "so\<lparr>flatness := flatness so\<rparr> = so"
  by simp

text \<open>
  C1, as the code has it: both calls of the sweep line pass \<^verbatim>\<open>validate=True\<close>, and no
  option changes that. A run is the same whatever the sweep line does when
  \<^verbatim>\<open>validate\<close> is not set.
\<close>

theorem effect_validate_always_set:
  "effect (e\<lparr>env_isect_segments := (\<lambda>segs validate. env_isect_segments e segs True)\<rparr>) so pathElements =
   effect e so pathElements"
proof (rule effect_cong)
  show "e\<lparr>env_isect_segments := (\<lambda>segs validate. env_isect_segments e segs True)\<rparr> =
        e\<lparr>env_isect_segments := (\<lambda>segs validate. env_isect_segments e segs True),
          env_cspsubdiv := env_cspsubdiv e\<rparr>"
    by simp
  show "so = so\<lparr>flatness := flatness so\<rparr>" by simp
  show "env_isect_segments e segs True = env_isect_segments e segs True" for segs ..
  show "sub_path_segs (e\<lparr>env_isect_segments := (\<lambda>segs validate. env_isect_segments e segs True)\<rparr>) so b p =
        sub_path_segs e so b p" for b p
    by (simp add: sub_path_segs_def)
qed

subsection \<open>A sweep line that finds nothing\<close>

lemma scan_sub_path_quiet:
  assumes iz: "\<And>segs. env_isect_segments e segs True = Inr []"
    and sp: "scan_sub_path e so pe fl st sp = Inr st'"
  shows "ss_doc st' = ss_doc st"
proof (cases "lines_loop e so pe (getElementById (ss_doc st) (pe_id pe) \<noteq> None) fl
                (sub_path_segs e so (isBezier fl) sp)
                [0 ..< length (sub_path_segs e so (isBezier fl) sp) - 1]")
  case (Inl err)
  then have "scan_sub_path e so pe fl st sp = Inl err"
    by (simp add: scan_sub_path_def Let_def)
  with sp show ?thesis by simp
next
  case (Inr made)
  then have "scan_sub_path e so pe fl st sp =
      Inr (st\<lparr>ss_array := ss_array st @ map fst made,
               ss_group := map_option (\<lambda>g. g\<lparr>sg_lines := sg_lines g @ map fst made\<rparr>) (ss_group st),
               ss_isSelfIntersecting := False\<rparr>)"
    by (simp add: scan_sub_path_def Let_def iz)
  with sp show ?thesis by auto
qed

lemma scan_sub_paths_quiet:
  assumes "\<And>segs. env_isect_segments e segs True = Inr []"
  shows "scan_sub_paths e so pe fl st sps = Inr st' \<Longrightarrow> ss_doc st' = ss_doc st"
proof (induction sps arbitrary: st)
  case Nil
  then show ?case by simp
next
  case (Cons sp sps)
  from Cons.prems obtain st1 where s1: "scan_sub_path e so pe fl st sp = Inr st1"
    and s2: "scan_sub_paths e so pe fl st1 sps = Inr st'"
    by (auto split: sum.splits)
  from Cons.IH [OF s2] scan_sub_path_quiet [OF assms s1] show ?case by simp
qed


lemma quiet_fields:
  "doc_self_intersection_groups (debug so m d) = doc_self_intersection_groups d"
  "doc_global_intersection_points (debug so m d) = doc_global_intersection_points d"
  "doc_self_intersection_groups (delete_path i d) = doc_self_intersection_groups d"
  "doc_global_intersection_points (delete_path i d) = doc_global_intersection_points d"
  "doc_self_intersection_groups (set_path_style i f d) = doc_self_intersection_groups d"
  "doc_global_intersection_points (set_path_style i f d) = doc_global_intersection_points d"
  by (simp_all add: debug_def msg_def delete_path_def set_path_style_def)

lemma split_path_quiet:
  assumes iz: "\<And>segs. env_isect_segments e segs True = Inr []"
    and sp: "split_path e so doc1 arr pe raw fl = Inr (doc', arr')"
  shows "doc_self_intersection_groups doc' = doc_self_intersection_groups doc1 \<and>
         doc_global_intersection_points doc' = doc_global_intersection_points doc1"
proof -
  let ?st0 = "\<lparr>ss_doc = doc1, ss_array = arr,
                ss_group = (if draw_subsplit so
                            then Some \<lparr>sg_id = idPrefix @ ''-'' @ pe_id pe, sg_lines = [], sg_attached = True\<rparr>
                            else None),
                ss_isSelfIntersecting = False\<rparr>"
  from sp obtain st1 where st1: "scan_sub_paths e so pe fl ?st0 (sub_paths raw) = Inr st1"
    and res: "doc' = (set_path_style (pe_id pe) (path_style e so fl (ss_isSelfIntersecting st1)) (ss_doc st1))
                \<lparr>doc_subsplit_groups := doc_subsplit_groups (ss_doc st1) @
                    (case ss_group st1 of None \<Rightarrow> [] | Some g \<Rightarrow> [g])\<rparr>"
    by (auto simp: split_path_def Let_def split: sum.splits)
  from scan_sub_paths_quiet [OF iz st1] have "ss_doc st1 = doc1" by simp
  with res show ?thesis by (simp add: quiet_fields)
qed

lemma scan_path_cases:
  assumes sp: "scan_path e so (doc, arr) pe = Inr (doc', arr')"
  obtains (gone) "doc' = delete_path (pe_id pe) doc"
    | (gone1) m where "doc' = delete_path (pe_id pe) (debug so m doc)"
    | (kept) m raw fl where "split_path e so (debug so m doc) arr pe raw fl = Inr (doc', arr')"
proof -
  define p where "p = pe_path pe"
  define has_rel where "has_rel = list_ex (\<lambda>c. in_str c p) relCmds"
  define has_abs where "has_abs = list_ex (\<lambda>c. in_str c p) relCmds_upper"
  define has_curve where "has_curve = (in_str (CHR ''c'') p \<or> in_str (CHR ''C'') p)"
  define c1 where "c1 = (remove_absolute so \<and> has_abs \<and> \<not> (has_rel \<and> has_abs))"
  define c2 where "c2 = (remove_relative so \<and> has_rel \<and> \<not> (has_rel \<and> has_abs))"
  define c3 where "c3 = (remove_mixed so \<and> (has_rel \<and> has_abs))"
  define c4 where "c4 = (remove_beziers so \<and> has_curve)"
  define c5 where "c5 = (remove_polylines so \<and> \<not> has_curve)"
  define doc1 where
    "doc1 = debug so (Debug ''sub path in {} is bezier: {}'' [S (pe_id pe), B has_curve]) doc"
  define raw where "raw = env_to_arrays e p"
  define k where "k = (\<lambda>cl.
      if remove_opened so \<and> \<not> cl then Inr (delete_path (pe_id pe) doc1, arr)
      else if remove_closed so \<and> cl then Inr (delete_path (pe_id pe) doc1, arr)
      else split_path e so doc1 arr pe raw
             \<lparr>isRelative = has_rel \<and> \<not> (has_rel \<and> has_abs),
               isAbsolute = has_abs \<and> \<not> (has_rel \<and> has_abs),
               isMixed = (has_rel \<and> has_abs), isBezier = has_curve, isClosed = cl\<rparr>)"
  have eq: "scan_path e so (doc, arr) pe =
      (if c1 then Inr (delete_path (pe_id pe) doc, arr)
       else if c2 then Inr (delete_path (pe_id pe) doc, arr)
       else if c3 then Inr (delete_path (pe_id pe) doc, arr)
       else if c4 then Inr (delete_path (pe_id pe) doc1, arr)
       else if c5 then Inr (delete_path (pe_id pe) doc1, arr)
       else case is_closed raw of Inl err \<Rightarrow> Inl err | Inr cl \<Rightarrow> k cl)"
    unfolding scan_path_def Let_def prod.case c1_def c2_def c3_def c4_def c5_def doc1_def
      raw_def k_def has_rel_def has_abs_def has_curve_def p_def
    by (rule refl)
  show thesis
  proof (cases "c1 \<or> c2 \<or> c3")
    case True
    with sp have "doc' = delete_path (pe_id pe) doc"
      unfolding eq by (auto split: if_split_asm)
    then show thesis by (rule gone)
  next
    case n123: False
    show thesis
    proof (cases "c4 \<or> c5")
      case True
      with sp n123 have "doc' = delete_path (pe_id pe) doc1"
        unfolding eq by (auto split: if_split_asm)
      then show thesis unfolding doc1_def by (rule gone1)
    next
      case n45: False
      from sp n123 n45 have r: "(case is_closed raw of Inl err \<Rightarrow> Inl err | Inr cl \<Rightarrow> k cl) =
          Inr (doc', arr')"
        unfolding eq by simp
      then obtain cl where kcl: "k cl = Inr (doc', arr')"
        by (cases "is_closed raw") simp_all
      show thesis
      proof (cases "remove_opened so \<and> \<not> cl \<or> remove_closed so \<and> cl")
        case True
        with kcl have "doc' = delete_path (pe_id pe) doc1"
          unfolding k_def by (auto split: if_split_asm)
        then show thesis unfolding doc1_def by (rule gone1)
      next
        case False
        with kcl have "split_path e so doc1 arr pe raw
             \<lparr>isRelative = has_rel \<and> \<not> (has_rel \<and> has_abs),
               isAbsolute = has_abs \<and> \<not> (has_rel \<and> has_abs),
               isMixed = (has_rel \<and> has_abs), isBezier = has_curve, isClosed = cl\<rparr> =
             Inr (doc', arr')"
          unfolding k_def by (auto split: if_split_asm)
        then show thesis unfolding doc1_def by (rule kept)
      qed
    qed
  qed
qed

lemma scan_path_quiet:
  assumes iz: "\<And>segs. env_isect_segments e segs True = Inr []"
    and sp: "scan_path e so (doc, arr) pe = Inr (doc', arr')"
  shows "doc_self_intersection_groups doc' = doc_self_intersection_groups doc \<and>
         doc_global_intersection_points doc' = doc_global_intersection_points doc"
  using sp
proof (cases rule: scan_path_cases)
  case gone
  then show ?thesis by (simp add: quiet_fields)
next
  case (gone1 m)
  then show ?thesis by (simp add: quiet_fields)
next
  case (kept m raw fl)
  from split_path_quiet [OF iz kept] show ?thesis by (simp add: quiet_fields)
qed

lemma scan_paths_quiet:
  assumes iz: "\<And>segs. env_isect_segments e segs True = Inr []"
  shows "scan_paths e so (doc, arr) pes = Inr (doc', arr') \<Longrightarrow>
         doc_self_intersection_groups doc' = doc_self_intersection_groups doc \<and>
         doc_global_intersection_points doc' = doc_global_intersection_points doc"
proof (induction pes arbitrary: doc arr)
  case Nil
  then show ?case by simp
next
  case (Cons pe pes)
  from Cons.prems obtain d1 a1 where s1: "scan_path e so (doc, arr) pe = Inr (d1, a1)"
    and s2: "scan_paths e so (d1, a1) pes = Inr (doc', arr')"
    by (auto split: sum.splits)
  from Cons.IH [OF s2] scan_path_quiet [OF iz s1] show ?case by simp
qed

lemma no_points_no_report:
  assumes iz: "\<And>segs. env_isect_segments e segs True = Inr []"
  shows "reported (effect e so pes) = []"
proof (cases "scan e so pes")
  case (Inl err)
  then show ?thesis by (simp add: effect_def reported_def)
next
  case (Inr r)
  obtain doc arr where r: "r = (doc, arr)" by (cases r)
  let ?d0 = "initial_document pes"
  let ?d1 = "if break_apart so \<and> show_debug so
             then msg (Msg (''Warning: '' @ apostrophe @ ''Break apart input'' @ apostrophe @
                            '' setting is enabled. Cannot check accordingly for relative, absolute or mixed paths for breaked elements (they are always absolute)!'')) ?d0
             else ?d0"
  from Inr r obtain d2 where d2: "scan_paths e so (?d1, []) pes = Inr (d2, arr)"
    and doc: "doc = debug so (Debug ''sub split line count: {}'' [N (length arr)]) d2"
    by (auto simp: scan_def Let_def split: sum.splits)
  have "doc_self_intersection_groups ?d1 = [] \<and> doc_global_intersection_points ?d1 = None"
    by (simp add: initial_document_def msg_def)
  with scan_paths_quiet [OF iz d2] doc
  have q: "doc_self_intersection_groups doc = []" "doc_global_intersection_points doc = None"
    by (simp_all add: debug_def msg_def)
  show ?thesis
  proof (cases "draw_trimmed so")
    case False
    with Inr r q show ?thesis by (simp add: effect_def reported_def)
  next
    case True
    have "trimming e so pes doc arr =
          Inr (debug so (Debug ''global intersection points count: {}'' [N 0]) doc)"
      by (simp add: trimming_def iz)
    with Inr r q True show ?thesis by (simp add: effect_def reported_def debug_def msg_def)
  qed
qed

text \<open>
  C1, as the specification states it, fails. The path (0,0), (1,0), (1,1) has two
  consecutive segments that share only the vertex (1,0). A sweep line that follows the
  specification reports that vertex when \<^verbatim>\<open>validate\<close> is not set; but no setting of
  the options makes a run report it.
\<close>

theorem adjacency_not_tunable_counterexample:
  "\<not> (\<exists>so. reported (effect (test_env adjacent_isect) so
               [polyline ''p'' [(0, 0), (1, 0), (1, 1)]]) \<noteq> []) \<and>
   adjacent_isect [((0, 0), (1, 0)), ((1, 0), (1, 1))] False = Inr [(1, 0)]"
proof -
  have "env_isect_segments (test_env adjacent_isect) segs True = Inr []" for segs
    by (simp add: test_env_def adjacent_isect_def)
  then have "reported (effect (test_env adjacent_isect) so pes) = []" for so pes
    by (rule no_points_no_report)
  then show ?thesis by (simp add: adjacent_isect_def)
qed

text \<open>
  C5 fails on the code. The help text of the option says "Minimum flatness = 0.001",
  and nothing in the file holds a value to it: no value of \<^verbatim>\<open>flatness\<close> is rejected,
  and none is changed. Without \<^verbatim>\<open>flattenbezier\<close> the value is not read at all, and
  wherever the flattener of the library is called it gets the value of the option as
  it is.
\<close>

theorem flatness_not_validated:
  "(\<not> flattenbezier so \<longrightarrow> effect e (so\<lparr>flatness := f\<rparr>) pathElements = effect e so pathElements) \<and>
   effect (e\<lparr>env_cspsubdiv := (\<lambda>p fl. env_cspsubdiv e p (flatness so))\<rparr>) so pathElements =
     effect e so pathElements"
proof (intro conjI impI)
  assume nf: "\<not> flattenbezier so"
  show "effect e (so\<lparr>flatness := f\<rparr>) pathElements = effect e so pathElements"
  proof (rule effect_cong)
    show "e = e\<lparr>env_isect_segments := env_isect_segments e, env_cspsubdiv := env_cspsubdiv e\<rparr>"
      by simp
    show "so\<lparr>flatness := f\<rparr> = so\<lparr>flatness := f\<rparr>" ..
    show "env_isect_segments e segs True = env_isect_segments e segs True" for segs ..
    show "sub_path_segs e (so\<lparr>flatness := f\<rparr>) b p = sub_path_segs e so b p" for b p
      using nf by (simp add: sub_path_segs_def)
  qed
next
  show "effect (e\<lparr>env_cspsubdiv := (\<lambda>p fl. env_cspsubdiv e p (flatness so))\<rparr>) so pathElements =
        effect e so pathElements"
  proof (rule effect_cong)
    show "e\<lparr>env_cspsubdiv := (\<lambda>p fl. env_cspsubdiv e p (flatness so))\<rparr> =
          e\<lparr>env_isect_segments := env_isect_segments e,
            env_cspsubdiv := (\<lambda>p fl. env_cspsubdiv e p (flatness so))\<rparr>"
      by simp
    show "so = so\<lparr>flatness := flatness so\<rparr>" by simp
    show "env_isect_segments e segs True = env_isect_segments e segs True" for segs ..
    show "sub_path_segs (e\<lparr>env_cspsubdiv := (\<lambda>p fl. env_cspsubdiv e p (flatness so))\<rparr>) so b p =
          sub_path_segs e so b p" for b p
      by (simp add: sub_path_segs_def)
  qed
qed

theorem flatness_not_validated_witness:
  "\<not> flattenbezier (default_options\<lparr>flattenbezier := False\<rparr>) \<and>
   effect (test_env (\<lambda>segs validate. Inr [])) (default_options\<lparr>flattenbezier := False, flatness := - 1\<rparr>)
     [one_curve] =
   effect (test_env (\<lambda>segs validate. Inr [])) (default_options\<lparr>flattenbezier := False\<rparr>) [one_curve]"
  using flatness_not_validated [of "default_options\<lparr>flattenbezier := False\<rparr>"
      "test_env (\<lambda>segs validate. Inr [])" "- 1" "[one_curve]"]
  by simp

text \<open>
  A run with \<^verbatim>\<open>flatness\<close> -1 is not rejected. On a path without curves it returns the
  document as it was. On a curve the flattener is called with -1 and with 0 as they
  are: here the flattener answers with the line from (0,0) to the point whose two
  coordinates are the tolerance it was given, and that line is drawn.
\<close>

theorem flatness_counterexample:
  "effect (test_env (\<lambda>segs validate. Inr [])) (default_options\<lparr>flatness := - 1\<rparr>)
     [polyline ''p'' [(0, 0), (10, 0)]] = Inr (initial_document [polyline ''p'' [(0, 0), (10, 0)]]) \<and>
   map_sum id drawn_lines
     (effect ((test_env (\<lambda>segs validate. Inr []))
                \<lparr>env_cspsubdiv := (\<lambda>p fl. [(CHR ''M'', [0, 0]), (CHR ''L'', [fl, fl])])\<rparr>)
        (default_options\<lparr>flatness := - 1, draw_subsplit := True\<rparr>) [one_curve]) =
   Inr [[((0, 0), (- 1, - 1))]] \<and>
   map_sum id drawn_lines
     (effect ((test_env (\<lambda>segs validate. Inr []))
                \<lparr>env_cspsubdiv := (\<lambda>p fl. [(CHR ''M'', [0, 0]), (CHR ''L'', [fl, fl])])\<rparr>)
        (default_options\<lparr>flatness := 0, draw_subsplit := True\<rparr>) [one_curve]) =
   Inr [[((0, 0), (0, 0))]]"
  by (simp add: model_defs drawn_lines_def one_curve_def)

end
